theory Spec2Isabelle
  imports Main "HOL-Library.Multiset"
begin

section \<open>The to-do list component of \<^verbatim>\<open>src/my-element.ts\<close>\<close>

subsection \<open>Data model\<close>

text \<open>
  \<^verbatim>\<open>interface TodoItem { title: string; completed: boolean; id: string; }\<close>
  The field \<^verbatim>\<open>id\<close> is called \<open>todo_id\<close> here, since \<open>id\<close> is the identity function
  of HOL. A JavaScript string is modelled as a \<^typ>\<open>string\<close>, one \<^typ>\<open>char\<close> per code
  unit (code units below 256).
\<close>

record TodoItem =
  title :: string
  completed :: bool
  todo_id :: string

abbreviation DQ :: char where "DQ \<equiv> CHR 0x22"
abbreviation BS :: char where "BS \<equiv> CHR 0x5C"

subsection \<open>\<^verbatim>\<open>JSON.stringify\<close> on a \<^verbatim>\<open>TodoItem[]\<close>\<close>

text \<open>
  The platform's \<^verbatim>\<open>JSON.stringify\<close>, at the only argument type the component gives
  it: an array of objects with the own properties \<^verbatim>\<open>title\<close>, \<^verbatim>\<open>completed\<close>, \<^verbatim>\<open>id\<close>, in
  this order (the order of the object literal of \<^verbatim>\<open>_handleAddTodo\<close>, which the spreads
  keep). Strings are quoted as ECMAScript's QuoteJSONString does: the short escapes for
  backspace, tab, line feed, form feed, carriage return, the double quote and the
  backslash, \<^verbatim>\<open>\u00XX\<close> in lower-case hexadecimal for the other code units below 0x20,
  every other code unit as it is.
\<close>

definition hexdigit :: "nat \<Rightarrow> char" where
  "hexdigit n = (if n < 10 then char_of (48 + n) else char_of (87 + n))"

definition QuoteJSONChar :: "char \<Rightarrow> string" where
  "QuoteJSONChar c =
     (if c = CHR 0x08 then [BS, CHR ''b'']
      else if c = CHR 0x09 then [BS, CHR ''t'']
      else if c = CHR 0x0A then [BS, CHR ''n'']
      else if c = CHR 0x0C then [BS, CHR ''f'']
      else if c = CHR 0x0D then [BS, CHR ''r'']
      else if c = DQ then [BS, DQ]
      else if c = BS then [BS, BS]
      else if (of_char c :: nat) < 0x20
        then [BS, CHR ''u'', CHR ''0'', CHR ''0'',
              hexdigit (of_char c div 16), hexdigit (of_char c mod 16)]
      else [c])"

definition QuoteJSONString :: "string \<Rightarrow> string" where
  "QuoteJSONString s = DQ # concat (map QuoteJSONChar s) @ [DQ]"

definition SerializeTodoItem :: "TodoItem \<Rightarrow> string" where
  "SerializeTodoItem item =
     ''{'' @ QuoteJSONString ''title'' @ '':'' @ QuoteJSONString (title item)
     @ '','' @ QuoteJSONString ''completed'' @ '':''
     @ (if completed item then ''true'' else ''false'')
     @ '','' @ QuoteJSONString ''id'' @ '':'' @ QuoteJSONString (todo_id item) @ ''}''"

fun join_comma :: "string list \<Rightarrow> string" where
  "join_comma [] = []"
| "join_comma [s] = s"
| "join_comma (s # t # ss) = s @ '','' @ join_comma (t # ss)"

definition JSON_stringify :: "TodoItem list \<Rightarrow> string" where
  "JSON_stringify l = ''['' @ join_comma (map SerializeTodoItem l) @ '']''"

subsection \<open>JSON values and \<^verbatim>\<open>JSON.parse\<close>\<close>

text \<open>
  The values \<^verbatim>\<open>JSON.parse\<close> returns. A number keeps its lexeme: its value as a double
  is not needed here. An object is the list of its own properties in the order they
  were created (JavaScript enumerates the keys that are array indices first; nothing
  here depends on the order among keys).
\<close>

datatype json =
    JNull
  | JBool bool
  | JNumber string
  | JString string
  | JArray "json list"
  | JObject "(string \<times> json) list"

text \<open>
  What the initialiser of \<^verbatim>\<open>_list\<close> can throw: \<^verbatim>\<open>SyntaxError\<close> from
  \<^verbatim>\<open>JSON.parse\<close>, \<^verbatim>\<open>TypeError\<close> from calling \<^verbatim>\<open>.map\<close> on a value that has no such
  method. \<open>Unsupported\<close> is no error of the program: it marks a text that has an escape
  \<^verbatim>\<open>\uXXXX\<close> of a code unit above 255, which the strings of this model cannot hold.
\<close>

datatype error = SyntaxError | TypeError | Unsupported

text \<open>
  The grammar of ECMA-404. White space is space, tab, line feed and carriage return.
\<close>

definition is_ws :: "char \<Rightarrow> bool" where
  "is_ws c \<longleftrightarrow> c = CHR 0x20 \<or> c = CHR 0x09 \<or> c = CHR 0x0A \<or> c = CHR 0x0D"

definition skip_ws :: "string \<Rightarrow> string" where
  "skip_ws s = dropWhile is_ws s"

definition is_digit :: "char \<Rightarrow> bool" where
  "is_digit c \<longleftrightarrow> 48 \<le> (of_char c :: nat) \<and> (of_char c :: nat) \<le> 57"

definition hexval :: "char \<Rightarrow> nat option" where
  "hexval c =
     (let n = (of_char c :: nat) in
      if 48 \<le> n \<and> n \<le> 57 then Some (n - 48)
      else if 97 \<le> n \<and> n \<le> 102 then Some (n - 87)
      else if 65 \<le> n \<and> n \<le> 70 then Some (n - 55)
      else None)"

definition unescape :: "char \<Rightarrow> char option" where
  "unescape e =
     (if e = DQ then Some DQ
      else if e = BS then Some BS
      else if e = CHR ''/'' then Some (CHR ''/'')
      else if e = CHR ''b'' then Some (CHR 0x08)
      else if e = CHR ''f'' then Some (CHR 0x0C)
      else if e = CHR ''n'' then Some (CHR 0x0A)
      else if e = CHR ''r'' then Some (CHR 0x0D)
      else if e = CHR ''t'' then Some (CHR 0x09)
      else None)"

definition cons_result :: "'a \<Rightarrow> error + 'a list \<times> 'b \<Rightarrow> error + 'a list \<times> 'b" where
  "cons_result x r = (case r of Inl e \<Rightarrow> Inl e | Inr (xs, rest) \<Rightarrow> Inr (x # xs, rest))"

text \<open>
  The characters of a string after its opening quote, up to the closing quote: a code
  unit below 0x20 is refused, a backslash starts one of the escapes
  \<^verbatim>\<open>\" \\ \/ \b \f \n \r \t\<close> or \<^verbatim>\<open>\u\<close> with four hexadecimal digits.
\<close>

fun parse_chars :: "string \<Rightarrow> error + string \<times> string" where
  "parse_chars [] = Inl SyntaxError"
| "parse_chars (c # cs) =
     (if c = DQ then Inr ([], cs)
      else if c = BS then
        (case cs of
           [] \<Rightarrow> Inl SyntaxError
         | e # cs1 \<Rightarrow>
             if e = CHR ''u'' then
               (case cs1 of
                  h1 # h2 # h3 # h4 # cs2 \<Rightarrow>
                    (case (hexval h1, hexval h2, hexval h3, hexval h4) of
                       (Some n1, Some n2, Some n3, Some n4) \<Rightarrow>
                         if n1 = 0 \<and> n2 = 0
                         then cons_result (char_of (16 * n3 + n4)) (parse_chars cs2)
                         else Inl Unsupported
                     | _ \<Rightarrow> Inl SyntaxError)
                | _ \<Rightarrow> Inl SyntaxError)
             else
               (case unescape e of
                  None \<Rightarrow> Inl SyntaxError
                | Some x \<Rightarrow> cons_result x (parse_chars cs1)))
      else if (of_char c :: nat) < 0x20 then Inl SyntaxError
      else cons_result c (parse_chars cs))"

text \<open>
  A number: an optional minus sign, then 0 or a digit from 1 to 9 followed by digits,
  then an optional fraction (a point and at least one digit) and an optional exponent
  (\<^verbatim>\<open>e\<close> or \<^verbatim>\<open>E\<close>, an optional sign, at least one digit).
\<close>

definition parse_digits :: "string \<Rightarrow> error + string \<times> string" where
  "parse_digits s =
     (if takeWhile is_digit s = [] then Inl SyntaxError
      else Inr (takeWhile is_digit s, dropWhile is_digit s))"

definition parse_int :: "string \<Rightarrow> error + string \<times> string" where
  "parse_int s =
     (case s of
        [] \<Rightarrow> Inl SyntaxError
      | c # cs \<Rightarrow> if c = CHR ''0'' then Inr (''0'', cs) else parse_digits s)"

definition parse_frac :: "string \<Rightarrow> error + string \<times> string" where
  "parse_frac s =
     (case s of
        [] \<Rightarrow> Inr ([], s)
      | c # cs \<Rightarrow>
          if c = CHR ''.''
          then (case parse_digits cs of
                  Inl e \<Rightarrow> Inl e
                | Inr (ds, r) \<Rightarrow> Inr (c # ds, r))
          else Inr ([], s))"

definition parse_exp :: "string \<Rightarrow> error + string \<times> string" where
  "parse_exp s =
     (case s of
        [] \<Rightarrow> Inr ([], s)
      | c # cs \<Rightarrow>
          if c = CHR ''e'' \<or> c = CHR ''E''
          then (case cs of
                  [] \<Rightarrow> Inl SyntaxError
                | d # ds \<Rightarrow>
                    if d = CHR ''+'' \<or> d = CHR ''-''
                    then (case parse_digits ds of
                            Inl e \<Rightarrow> Inl e
                          | Inr (xs, r) \<Rightarrow> Inr (c # d # xs, r))
                    else (case parse_digits cs of
                            Inl e \<Rightarrow> Inl e
                          | Inr (xs, r) \<Rightarrow> Inr (c # xs, r)))
          else Inr ([], s))"

definition parse_number :: "string \<Rightarrow> error + string \<times> string" where
  "parse_number s =
     (let (sign, s1) = (case s of
                          [] \<Rightarrow> ([], s)
                        | c # cs \<Rightarrow> if c = CHR ''-'' then ([c], cs) else ([], s))
      in case parse_int s1 of
           Inl e \<Rightarrow> Inl e
         | Inr (whole, s2) \<Rightarrow>
             (case parse_frac s2 of
                Inl e \<Rightarrow> Inl e
              | Inr (frac, s3) \<Rightarrow>
                  (case parse_exp s3 of
                     Inl e \<Rightarrow> Inl e
                   | Inr (ex, s4) \<Rightarrow> Inr (sign @ whole @ frac @ ex, s4))))"

text \<open>
  Defining a property of an object: an existing key keeps its place and takes the new
  value, a new key goes to the end. In an object literal of JSON text a repeated key
  keeps its last value.
\<close>

fun set_property :: "string \<Rightarrow> json \<Rightarrow> (string \<times> json) list \<Rightarrow> (string \<times> json) list" where
  "set_property k v [] = [(k, v)]"
| "set_property k v ((k', v') # ps) =
     (if k' = k then (k, v) # ps else (k', v') # set_property k v ps)"

definition object_of_members :: "(string \<times> json) list \<Rightarrow> json" where
  "object_of_members ms = JObject (foldl (\<lambda>ps (k, v). set_property k v ps) [] ms)"

text \<open>
  Values, the elements of a non-empty array and the members of a non-empty object, each
  starting at the first character that is not white space. The tests
  \<open>length ds < length s\<close> on the text left after a comma or a colon serve the
  termination proof only; they always hold (lemmas \<open>parse_elements_unguarded\<close> and
  \<open>parse_members_unguarded\<close> below).
\<close>

function parse_value :: "string \<Rightarrow> error + json \<times> string"
  and parse_elements :: "string \<Rightarrow> error + json list \<times> string"
  and parse_members :: "string \<Rightarrow> error + (string \<times> json) list \<times> string"
where
  "parse_value s =
     (case s of
        [] \<Rightarrow> Inl SyntaxError
      | c # cs \<Rightarrow>
          if c = CHR ''['' then
            (if skip_ws cs = [] then Inl SyntaxError
             else if hd (skip_ws cs) = CHR '']'' then Inr (JArray [], tl (skip_ws cs))
             else (case parse_elements (skip_ws cs) of
                     Inl e \<Rightarrow> Inl e
                   | Inr (vs, r) \<Rightarrow> Inr (JArray vs, r)))
          else if c = CHR ''{'' then
            (if skip_ws cs = [] then Inl SyntaxError
             else if hd (skip_ws cs) = CHR ''}'' then Inr (JObject [], tl (skip_ws cs))
             else (case parse_members (skip_ws cs) of
                     Inl e \<Rightarrow> Inl e
                   | Inr (ms, r) \<Rightarrow> Inr (object_of_members ms, r)))
          else if c = DQ then
            (case parse_chars cs of
               Inl e \<Rightarrow> Inl e
             | Inr (str, r) \<Rightarrow> Inr (JString str, r))
          else if c = CHR ''t'' then
            (if take 3 cs = ''rue'' then Inr (JBool True, drop 3 cs) else Inl SyntaxError)
          else if c = CHR ''f'' then
            (if take 4 cs = ''alse'' then Inr (JBool False, drop 4 cs) else Inl SyntaxError)
          else if c = CHR ''n'' then
            (if take 3 cs = ''ull'' then Inr (JNull, drop 3 cs) else Inl SyntaxError)
          else
            (case parse_number s of
               Inl e \<Rightarrow> Inl e
             | Inr (lexeme, r) \<Rightarrow> Inr (JNumber lexeme, r)))"
| "parse_elements s =
     (case parse_value s of
        Inl e \<Rightarrow> Inl e
      | Inr (v, r) \<Rightarrow>
          (case skip_ws r of
             [] \<Rightarrow> Inl SyntaxError
           | d # ds \<Rightarrow>
               if d = CHR '']'' then Inr ([v], ds)
               else if d = CHR '','' \<and> length ds < length s then
                 cons_result v (parse_elements (skip_ws ds))
               else Inl SyntaxError))"
| "parse_members s =
     (case s of
        [] \<Rightarrow> Inl SyntaxError
      | c # cs \<Rightarrow>
          if c = DQ then
            (case parse_chars cs of
               Inl e \<Rightarrow> Inl e
             | Inr (k, r) \<Rightarrow>
                 (case skip_ws r of
                    [] \<Rightarrow> Inl SyntaxError
                  | d # ds \<Rightarrow>
                      if d = CHR '':'' \<and> length ds < length s then
                        (case parse_value (skip_ws ds) of
                           Inl e \<Rightarrow> Inl e
                         | Inr (v, r') \<Rightarrow>
                             (case skip_ws r' of
                                [] \<Rightarrow> Inl SyntaxError
                              | d' # ds' \<Rightarrow>
                                  if d' = CHR ''}'' then Inr ([(k, v)], ds')
                                  else if d' = CHR '','' \<and> length ds' < length s then
                                    cons_result (k, v) (parse_members (skip_ws ds'))
                                  else Inl SyntaxError))
                      else Inl SyntaxError))
          else Inl SyntaxError)"
  by pat_completeness auto
termination
proof (relation "measure (\<lambda>x. case x of
          Inl s \<Rightarrow> 3 * length s
        | Inr (Inl s) \<Rightarrow> 3 * length s + 1
        | Inr (Inr s) \<Rightarrow> 3 * length s + 2)", goal_cases)
  case 1
  show ?case by simp
next
  case (2 s c cs)
  have "length (skip_ws cs) \<le> length cs"
    unfolding skip_ws_def by (rule length_dropWhile_le)
  with 2 show ?case by simp
next
  case (3 s c cs)
  have "length (skip_ws cs) \<le> length cs"
    unfolding skip_ws_def by (rule length_dropWhile_le)
  with 3 show ?case by simp
next
  case (4 s)
  show ?case by simp
next
  case (5 s x v r d ds)
  have "length (skip_ws ds) \<le> length ds"
    unfolding skip_ws_def by (rule length_dropWhile_le)
  with 5 show ?case by simp
next
  case (6 s c cs x k r d ds)
  have "length (skip_ws ds) \<le> length ds"
    unfolding skip_ws_def by (rule length_dropWhile_le)
  with 6 show ?case by simp
next
  case (7 s c cs x k r d ds y v r' d' ds')
  have "length (skip_ws ds') \<le> length ds'"
    unfolding skip_ws_def by (rule length_dropWhile_le)
  with 7 show ?case by simp
qed

text \<open>
  \<^verbatim>\<open>JSON.parse(text)\<close>: one value, with white space around it and nothing else.
\<close>

definition JSON_parse :: "string \<Rightarrow> error + json" where
  "JSON_parse text =
     (case parse_value (skip_ws text) of
        Inl e \<Rightarrow> Inl e
      | Inr (v, r) \<Rightarrow> if skip_ws r = [] then Inr v else Inl SyntaxError)"

subsection \<open>The component and its environment\<close>

text \<open>
  The state the handlers read and write, passed explicitly (an Isabelle name cannot
  start with an underscore, so \<^verbatim>\<open>_handleAddTodo\<close> is \<open>handleAddTodo\<close>, and so on):
  \<^item> \<open>this_list\<close> is the property \<^verbatim>\<open>this._list\<close>;
  \<^item> \<open>todoInput_value\<close> is \<^verbatim>\<open>this._todoInput.value\<close>, the text of the input field;
  \<^item> \<open>localStorage\<close> is the browser's storage, a map from keys to strings;
  \<^item> \<^verbatim>\<open>crypto.randomUUID()\<close> returns \<open>crypto_uuids st (crypto_calls st)\<close> and
    increments \<open>crypto_calls\<close>: the sequence of identifiers the platform will hand out
    is a parameter of the model;
  \<^item> \<open>timeout\<close> is the variable \<^verbatim>\<open>timeout\<close> captured by the closure that
    \<^verbatim>\<open>debounce\<close> returns; \<open>timers\<close> holds the window's pending timers as
    (handle, due time, argument of the callback), \<open>next_timer\<close> is the next handle
    \<^verbatim>\<open>setTimeout\<close> returns, and \<open>now\<close> is the clock in milliseconds.
\<close>

record state =
  this_list :: "TodoItem list"
  todoInput_value :: string
  localStorage :: "string \<rightharpoonup> string"
  crypto_uuids :: "nat \<Rightarrow> string"
  crypto_calls :: nat
  timeout :: "nat option"
  timers :: "(nat \<times> nat \<times> string) list"
  next_timer :: nat
  now :: nat

text \<open>
  \<^verbatim>\<open>localStorage.setItem("todo-list", JSON.stringify(this._list))\<close>, the statement that
  ends each of the three handlers. The write is taken to succeed: the quota of the
  storage is not modelled.
\<close>

definition setItem_todo_list :: "state \<Rightarrow> state" where
  "setItem_todo_list st =
     st\<lparr>localStorage := (localStorage st)(''todo-list'' \<mapsto> JSON_stringify (this_list st))\<rparr>"

text \<open>
  \<^verbatim>\<open>_handleCheckedTodo(id)\<close>: \<^verbatim>\<open>this._list.map\<close> with the arrow function that
  returns \<^verbatim>\<open>{...item, completed: !item.completed}\<close> when \<^verbatim>\<open>item.id === id\<close> and
  \<^verbatim>\<open>item\<close> otherwise; then the assignment and the write to storage.
\<close>

definition handleCheckedTodo :: "string \<Rightarrow> state \<Rightarrow> state" where
  "handleCheckedTodo i st =
     (let newList = map (\<lambda>item. if todo_id item = i
                                 then item\<lparr>completed := \<not> completed item\<rparr>
                                 else item) (this_list st)
      in setItem_todo_list (st\<lparr>this_list := newList\<rparr>))"

text \<open>
  \<^verbatim>\<open>_handleAddTodo()\<close>: \<^verbatim>\<open>if (!value) return;\<close> leaves on the empty string, the only
  falsy string; otherwise the new item is appended, the list written to storage and
  the input field emptied.
\<close>

definition handleAddTodo :: "state \<Rightarrow> state" where
  "handleAddTodo st =
     (let value = todoInput_value st in
      if value = [] then st
      else
        let uuid = crypto_uuids st (crypto_calls st);
            st1 = st\<lparr>crypto_calls := Suc (crypto_calls st)\<rparr>;
            st2 = st1\<lparr>this_list := this_list st1
                         @ [\<lparr>title = value, completed = False, todo_id = uuid\<rparr>]\<rparr>;
            st3 = setItem_todo_list st2
        in st3\<lparr>todoInput_value := []\<rparr>)"

text \<open>\<^verbatim>\<open>_handleDeleteTodo(id)\<close>: \<^verbatim>\<open>this._list.filter((item) => item.id !== id)\<close>.\<close>

definition handleDeleteTodo :: "string \<Rightarrow> state \<Rightarrow> state" where
  "handleDeleteTodo i st =
     setItem_todo_list (st\<lparr>this_list := filter (\<lambda>item. todo_id item \<noteq> i) (this_list st)\<rparr>)"

subsection \<open>The initial list\<close>

text \<open>
  The decimal numeral of an array index, the key under which a spread copies the
  element.
\<close>

fun decimal :: "nat \<Rightarrow> string" where
  "decimal n =
     (if n < 10 then [char_of (48 + n)]
      else decimal (n div 10) @ [char_of (48 + n mod 10)])"

declare decimal.simps [simp del]

text \<open>
  The own enumerable properties that \<^verbatim>\<open>{...item}\<close> copies: those of an object, the
  elements of an array and the code units of a string under their indices, none for
  a number, a boolean or \<^verbatim>\<open>null\<close>.
\<close>

definition spread :: "json \<Rightarrow> (string \<times> json) list" where
  "spread v =
     (case v of
        JObject ps \<Rightarrow> ps
      | JArray vs \<Rightarrow> zip (map decimal [0..<length vs]) vs
      | JString s \<Rightarrow> zip (map decimal [0..<length s]) (map (\<lambda>c. JString [c]) s)
      | _ \<Rightarrow> [])"

text \<open>
  The initialiser of the field \<^verbatim>\<open>_list\<close>:
  \<^verbatim>\<open>JSON.parse(localStorage.getItem("todo-list") || "[]").map((item) => ({...item, id: crypto.randomUUID()}))\<close>.
  \<^verbatim>\<open>getItem\<close> returns \<^verbatim>\<open>null\<close> for a missing key, and \<^verbatim>\<open>||\<close> replaces \<^verbatim>\<open>null\<close> and the
  empty string by \<^verbatim>\<open>"[]"\<close>. A value that is not an array has no method \<^verbatim>\<open>map\<close>, and
  the call throws a \<^verbatim>\<open>TypeError\<close>. The arrow function is applied to the elements in
  order, so the element at index \<open>k\<close> gets the \<open>k\<close>-th identifier generated from
  now on; \<^verbatim>\<open>id\<close> is written after the spread and replaces an \<^verbatim>\<open>id\<close> the element has.
  The result is the list of objects (TypeScript's types are erased at run time, so
  these are whatever the stored text describes) and the state after the calls of
  \<^verbatim>\<open>crypto.randomUUID\<close>.
\<close>

definition initial_list :: "state \<Rightarrow> error + (string \<times> json) list list \<times> state" where
  "initial_list st =
     (let text = (case localStorage st ''todo-list'' of
                    None \<Rightarrow> ''[]''
                  | Some s \<Rightarrow> if s = [] then ''[]'' else s)
      in case JSON_parse text of
           Inl e \<Rightarrow> Inl e
         | Inr parsed \<Rightarrow>
             (case parsed of
                JArray items \<Rightarrow>
                  Inr (map (\<lambda>(k, item).
                              set_property ''id''
                                (JString (crypto_uuids st (crypto_calls st + k))) (spread item))
                         (enumerate 0 items),
                       st\<lparr>crypto_calls := crypto_calls st + length items\<rparr>)
              | _ \<Rightarrow> Inl TypeError))"

text \<open>
  A \<^verbatim>\<open>TodoItem\<close> as an object and as a JSON value, and the reading of an object as a
  \<^verbatim>\<open>TodoItem\<close>: it has a string \<^verbatim>\<open>title\<close>, a boolean \<^verbatim>\<open>completed\<close> and a string
  \<^verbatim>\<open>id\<close>.
\<close>

definition TodoItem_object :: "TodoItem \<Rightarrow> (string \<times> json) list" where
  "TodoItem_object item =
     [(''title'', JString (title item)), (''completed'', JBool (completed item)),
      (''id'', JString (todo_id item))]"

definition TodoItem_json :: "TodoItem \<Rightarrow> json" where
  "TodoItem_json item = JObject (TodoItem_object item)"

definition TodoItem_of_object :: "(string \<times> json) list \<Rightarrow> TodoItem option" where
  "TodoItem_of_object ps =
     (case (map_of ps ''title'', map_of ps ''completed'', map_of ps ''id'') of
        (Some (JString t), Some (JBool c), Some (JString i)) \<Rightarrow>
          Some \<lparr>title = t, completed = c, todo_id = i\<rparr>
      | _ \<Rightarrow> None)"

subsection \<open>The identifiers in the list\<close>

text \<open>
  The identifiers of the list are pairwise different and each of them is one that
  \<^verbatim>\<open>crypto.randomUUID\<close> has returned so far. The initialiser of \<^verbatim>\<open>_list\<close> and
  \<^verbatim>\<open>_handleAddTodo\<close> are the only places that write an \<^verbatim>\<open>id\<close>, and both take it
  from \<^verbatim>\<open>crypto.randomUUID\<close>.
\<close>

definition ids_generated :: "state \<Rightarrow> bool" where
  "ids_generated st \<longleftrightarrow>
     distinct (map todo_id (this_list st))
     \<and> set (map todo_id (this_list st)) \<subseteq> crypto_uuids st ` {..<crypto_calls st}"

subsection \<open>The display order computed by \<^verbatim>\<open>render\<close>\<close>

text \<open>
  The comparator given to \<^verbatim>\<open>sort\<close>: 0 when both flags agree, 1 when \<^verbatim>\<open>a\<close> is
  completed, -1 otherwise.
\<close>

definition compareFn :: "TodoItem \<Rightarrow> TodoItem \<Rightarrow> int" where
  "compareFn a b = (if completed a = completed b then 0 else if completed a then 1 else -1)"

text \<open>
  \<^verbatim>\<open>Array.prototype.sort\<close> is a stable sort (ECMAScript 2019 and later): elements
  that compare as equal keep their relative order. Its algorithm is left to the engine;
  for a consistent comparator the result does not depend on it, and the model is the
  stable insertion sort: an element is put in front of the first element of the sorted
  rest that it is not greater than.
\<close>

fun sort_insert :: "('a \<Rightarrow> 'a \<Rightarrow> int) \<Rightarrow> 'a \<Rightarrow> 'a list \<Rightarrow> 'a list" where
  "sort_insert cmp x [] = [x]"
| "sort_insert cmp x (y # ys) =
     (if cmp x y \<le> 0 then x # y # ys else y # sort_insert cmp x ys)"

definition Array_sort :: "('a \<Rightarrow> 'a \<Rightarrow> int) \<Rightarrow> 'a list \<Rightarrow> 'a list" where
  "Array_sort cmp xs = foldr (sort_insert cmp) xs []"

text \<open>
  \<^verbatim>\<open>const sortedList = [...this._list].sort(...)\<close>. \<^verbatim>\<open>sort\<close> works in place, so what
  happens to \<^verbatim>\<open>this._list\<close> depends on which array is sorted. Arrays live in a store
  from references to contents: reference 0 is the array \<^verbatim>\<open>this._list\<close> points to, the
  spread allocates reference 1 with a copy of the contents, and \<^verbatim>\<open>sort\<close> overwrites
  reference 1. The result is \<^verbatim>\<open>sortedList\<close> together with the state after the
  statement, whose \<open>this_list\<close> is read back from reference 0.
\<close>

definition render_sortedList :: "state \<Rightarrow> TodoItem list \<times> state" where
  "render_sortedList st =
     (let arrays0 = (\<lambda>r::nat. []) (0 := this_list st);
          arrays1 = arrays0 (1 := arrays0 0);
          arrays2 = arrays1 (1 := Array_sort compareFn (arrays1 1))
      in (arrays2 1, st\<lparr>this_list := arrays2 0\<rparr>))"

subsection \<open>The debounced toggle and the timers\<close>

text \<open>
  \<^verbatim>\<open>clearTimeout(handle)\<close> takes the timer with that handle out of the pending ones;
  with \<^verbatim>\<open>undefined\<close>, or the handle of a timer that has fired, it does nothing.
\<close>

definition clearTimeout :: "nat option \<Rightarrow> state \<Rightarrow> state" where
  "clearTimeout handle st =
     (case handle of
        None \<Rightarrow> st
      | Some h \<Rightarrow> st\<lparr>timers := filter (\<lambda>(k, due, arg). k \<noteq> h) (timers st)\<rparr>)"

text \<open>
  \<^verbatim>\<open>window.setTimeout(() => func.apply(this, args), wait)\<close>: a new pending timer, due
  \<open>wait\<close> milliseconds from now, that keeps the argument its callback will pass on;
  the handle is returned.
\<close>

definition setTimeout :: "string \<Rightarrow> nat \<Rightarrow> state \<Rightarrow> nat \<times> state" where
  "setTimeout arg wait st =
     (next_timer st,
      st\<lparr>timers := timers st @ [(next_timer st, now st + wait, arg)],
         next_timer := Suc (next_timer st)\<rparr>)"

text \<open>
  The function that \<^verbatim>\<open>debounce(func, wait)\<close> returns: it clears the timer named by the
  captured variable \<^verbatim>\<open>timeout\<close>, sets a new one and stores its handle in the variable.
  The component calls \<^verbatim>\<open>debounce\<close> once, with the function that calls
  \<^verbatim>\<open>_handleCheckedTodo(id)\<close> and a wait of 300, so the callback of every timer is
  \<^verbatim>\<open>_handleCheckedTodo\<close> at the stored argument.
\<close>

definition debounced :: "nat \<Rightarrow> string \<Rightarrow> state \<Rightarrow> state" where
  "debounced wait arg st =
     (let st1 = clearTimeout (timeout st) st;
          (h, st2) = setTimeout arg wait st1
      in st2\<lparr>timeout := Some h\<rparr>)"

definition debouncedCheckTodo :: "string \<Rightarrow> state \<Rightarrow> state" where
  "debouncedCheckTodo i st = debounced 300 i st"

text \<open>
  \<open>d\<close> milliseconds pass with no event from the user: the timers due by then leave
  the pending ones and their callbacks run, in the order of their due times (timers due
  at the same time in the order they were set); a timer never runs before it is due.
\<close>

definition elapse :: "nat \<Rightarrow> state \<Rightarrow> state" where
  "elapse d st =
     (let t = now st + d;
          due = filter (\<lambda>(k, w, arg). w \<le> t) (timers st);
          pending = filter (\<lambda>(k, w, arg). \<not> w \<le> t) (timers st);
          st1 = foldl (\<lambda>s (k, w, arg). handleCheckedTodo arg s)
                  (st\<lparr>timers := pending\<rparr>) (sort_key (\<lambda>(k, w, arg). w) due)
      in st1\<lparr>now := t\<rparr>)"

text \<open>
  What happens to the component, in order: \<open>Change i\<close> is the \<^verbatim>\<open>change\<close> event of
  the checkbox of the item with identifier \<open>i\<close>, whose listener calls
  \<^verbatim>\<open>this.debouncedCheckTodo(item.id)\<close>; \<open>Elapse d\<close> is \<open>d\<close> milliseconds without an
  event.
\<close>

datatype event = Change string | Elapse nat

fun run :: "event list \<Rightarrow> state \<Rightarrow> state" where
  "run [] st = st"
| "run (Change i # es) st = run es (debouncedCheckTodo i st)"
| "run (Elapse d # es) st = run es (elapse d st)"

text \<open>
  A burst of requests: each request \<open>(gap, i)\<close> comes \<open>gap\<close> milliseconds after
  the one before it.
\<close>

fun burst :: "(nat \<times> string) list \<Rightarrow> event list" where
  "burst [] = []"
| "burst ((gap, i) # rs) = Elapse gap # Change i # burst rs"

text \<open>
  The state right after a request for \<open>i\<close>, relative to the state \<open>st0\<close> the
  burst started in: one pending timer, due in 300 ms, with argument \<open>i\<close> and its
  handle in \<^verbatim>\<open>timeout\<close>; list and storage as in \<open>st0\<close>.
\<close>

definition armed :: "state \<Rightarrow> state \<Rightarrow> string \<Rightarrow> bool" where
  "armed st0 st i \<longleftrightarrow>
     (\<exists>h. timers st = [(h, now st + 300, i)] \<and> timeout st = Some h)
     \<and> this_list st = this_list st0 \<and> localStorage st = localStorage st0"

subsection \<open>Example inputs\<close>

text \<open>
  A sequence of identifiers for \<^verbatim>\<open>crypto.randomUUID\<close>, a component state with a given
  list and input text (empty storage, no pending timer), and a list of four items in
  which two share the identifier \<^verbatim>\<open>2\<close>.
\<close>

definition example_uuids :: "nat \<Rightarrow> string" where
  "example_uuids n = ''3b241101-e2bb-4255-8caf-4136c566a96'' @ [hexdigit (n mod 16)]"

definition example_state :: "TodoItem list \<Rightarrow> string \<Rightarrow> state" where
  "example_state l v = \<lparr>this_list = l, todoInput_value = v, localStorage = Map.empty,
     crypto_uuids = example_uuids, crypto_calls = 0, timeout = None, timers = [],
     next_timer = 0, now = 0\<rparr>"

definition example_items :: "TodoItem list" where
  "example_items =
     [\<lparr>title = ''Buy milk'', completed = True, todo_id = ''1''\<rparr>,
      \<lparr>title = ''Walk dog'', completed = False, todo_id = ''2''\<rparr>,
      \<lparr>title = ''Buy milk'', completed = True, todo_id = ''3''\<rparr>,
      \<lparr>title = ''Read'', completed = False, todo_id = ''2''\<rparr>]"

section \<open>Properties\<close>

subsection \<open>\<^verbatim>\<open>JSON.parse\<close> consumes its input\<close>

declare parse_value.simps [simp del] parse_elements.simps [simp del] parse_members.simps [simp del]

lemma skip_ws_Cons: "\<not> is_ws c \<Longrightarrow> skip_ws (c # s) = c # s"
  by (simp add: skip_ws_def)

lemma cons_result_Inr:
  "cons_result x r = Inr (ys, rest) \<longleftrightarrow> (\<exists>xs. r = Inr (xs, rest) \<and> ys = x # xs)"
  by (auto simp: cons_result_def split: sum.splits)

lemma parse_chars_shorter:
  "parse_chars s = Inr (x, r) \<Longrightarrow> length r < length s"
proof (induction "length s" arbitrary: s x rule: less_induct)
  case less
  have ih: "length r < length s'" if "parse_chars s' = Inr (x', r)" "length s' < length s" for s' x'
    using less.hyps [OF that(2) that(1)] .
  show ?case
  proof (cases s)
    case Nil
    with less.prems show ?thesis by simp
  next
    case (Cons c cs)
    with less.prems show ?thesis
      by (auto simp: cons_result_Inr split: if_splits list.splits option.splits dest!: ih)
  qed
qed

lemma skip_ws_le: "length (skip_ws s) \<le> length s"
  unfolding skip_ws_def by (rule length_dropWhile_le)

lemma parse_digits_shorter:
  "parse_digits s = Inr (x, r) \<Longrightarrow> length r < length s"
proof -
  assume a: "parse_digits s = Inr (x, r)"
  then have "takeWhile is_digit s \<noteq> []" and r: "r = dropWhile is_digit s"
    by (auto simp: parse_digits_def split: if_splits)
  then have "0 < length (takeWhile is_digit s)" by simp
  moreover have "length (takeWhile is_digit s) + length (dropWhile is_digit s) = length s"
    by (metis length_append takeWhile_dropWhile_id)
  ultimately show ?thesis unfolding r by linarith
qed

lemma parse_int_shorter: "parse_int s = Inr (x, r) \<Longrightarrow> length r < length s"
  by (auto simp: parse_int_def split: list.splits if_splits dest: parse_digits_shorter)

lemma parse_frac_shorter: "parse_frac s = Inr (x, r) \<Longrightarrow> length r \<le> length s"
  by (auto simp: parse_frac_def split: list.splits if_splits sum.splits dest!: parse_digits_shorter)

lemma parse_exp_shorter: "parse_exp s = Inr (x, r) \<Longrightarrow> length r \<le> length s"
  by (auto simp: parse_exp_def split: list.splits if_splits sum.splits dest!: parse_digits_shorter)

lemma parse_number_shorter: "parse_number s = Inr (x, r) \<Longrightarrow> length r < length s"
  by (auto simp: parse_number_def split: list.splits if_splits sum.splits prod.splits
      dest!: parse_int_shorter parse_frac_shorter parse_exp_shorter)


lemma parse_shorter:
  "\<forall>v r. parse_value s = Inr (v, r) \<longrightarrow> length r < length s"
  "\<forall>vs r. parse_elements s1 = Inr (vs, r) \<longrightarrow> length r < length s1"
  "\<forall>ms r. parse_members s2 = Inr (ms, r) \<longrightarrow> length r < length s2"
proof (induction s and s1 and s2 rule: parse_value_parse_elements_parse_members.induct)
  case (1 s)
  show ?case
  proof (intro allI impI)
    fix v r
    assume a: "parse_value s = Inr (v, r)"
    show "length r < length s"
    proof (cases s)
      case Nil
      with a show ?thesis by (simp add: parse_value.simps)
    next
      case (Cons c cs)
      have le: "length (skip_ws cs) \<le> length cs" by (rule skip_ws_le)
      have tl: "length (tl (skip_ws cs)) \<le> length cs"
        using le by simp
      from a Cons "1.IH" le tl show ?thesis
        apply (subst (asm) parse_value.simps)
        apply (auto split: if_splits sum.splits dest!: parse_chars_shorter parse_number_shorter)
        done
    qed
  qed
next
  case (2 s)
  show ?case
  proof (intro allI impI)
    fix vs r
    assume a: "parse_elements s = Inr (vs, r)"
    from a obtain v r1 where v: "parse_value s = Inr (v, r1)"
      by (subst (asm) parse_elements.simps) (auto split: sum.splits)
    with "2.IH"(1) have l1: "length r1 < length s" by simp
    have l2: "length (skip_ws r1) \<le> length r1" by (rule skip_ws_le)
    from a v obtain d ds where d: "skip_ws r1 = d # ds"
      by (subst (asm) parse_elements.simps) (auto split: list.splits)
    show "length r < length s"
    proof (cases "d = CHR '']''")
      case True
      with a v d have "r = ds"
        by (subst (asm) parse_elements.simps) simp
      with l1 l2 d show ?thesis by simp
    next
      case False
      with a v d have c: "d = CHR '','' \<and> length ds < length s"
        and p: "cons_result v (parse_elements (skip_ws ds)) = Inr (vs, r)"
        by (subst (asm) parse_elements.simps, simp split: if_splits)+
      from p obtain ws where "parse_elements (skip_ws ds) = Inr (ws, r)"
        by (auto simp: cons_result_Inr)
      with "2.IH"(2) [OF v refl d False c] have "length r < length (skip_ws ds)"
        by simp
      with skip_ws_le [of ds] c show ?thesis by simp
    qed
  qed
next
  case (3 s)
  show ?case
  proof (intro allI impI)
    fix ms r
    assume a: "parse_members s = Inr (ms, r)"
    from a obtain cs where s: "s = DQ # cs"
      by (subst (asm) parse_members.simps) (auto split: list.splits if_splits)
    from a s obtain k r1 where k: "parse_chars cs = Inr (k, r1)"
      by (subst (asm) parse_members.simps) (auto split: sum.splits)
    from a s k obtain d ds where d: "skip_ws r1 = d # ds"
      by (subst (asm) parse_members.simps) (auto split: list.splits)
    from a s k d have c: "d = CHR '':'' \<and> length ds < length s"
      by (subst (asm) parse_members.simps) (simp split: if_splits)
    from a s k d c obtain v r2 where v: "parse_value (skip_ws ds) = Inr (v, r2)"
      by (subst (asm) parse_members.simps) (auto split: sum.splits)
    from "3.IH"(1) [OF s refl k refl d c] v have l2: "length r2 < length (skip_ws ds)"
      by simp
    from a s k d c v obtain d' ds' where d': "skip_ws r2 = d' # ds'"
      by (subst (asm) parse_members.simps) (auto split: list.splits)
    have l3: "length ds' < length s"
      using l2 skip_ws_le [of ds] skip_ws_le [of r2] c d' by simp
    show "length r < length s"
    proof (cases "d' = CHR ''}''")
      case True
      with a s k d c v d' have "r = ds'"
        by (subst (asm) parse_members.simps) simp
      with l3 show ?thesis by simp
    next
      case False
      with a s k d c v d' have c': "d' = CHR '','' \<and> length ds' < length s"
        and p: "cons_result (k, v) (parse_members (skip_ws ds')) = Inr (ms, r)"
        by (subst (asm) parse_members.simps, simp split: if_splits)+
      from p obtain ws where "parse_members (skip_ws ds') = Inr (ws, r)"
        by (auto simp: cons_result_Inr)
      with "3.IH"(2) [OF s refl k refl d c v refl d' False c'] have "length r < length (skip_ws ds')"
        by simp
      with skip_ws_le [of ds'] l3 show ?thesis by simp
    qed
  qed
qed

lemma parse_elements_unguarded:
  "parse_elements s =
     (case parse_value s of
        Inl e \<Rightarrow> Inl e
      | Inr (v, r) \<Rightarrow>
          (case skip_ws r of
             [] \<Rightarrow> Inl SyntaxError
           | d # ds \<Rightarrow>
               if d = CHR '']'' then Inr ([v], ds)
               else if d = CHR '','' then cons_result v (parse_elements (skip_ws ds))
               else Inl SyntaxError))"
proof -
  have "length ds < length s" if "parse_value s = Inr (v, r)" "skip_ws r = d # ds" for v r d ds
    using parse_shorter(1) [of s] that skip_ws_le [of r] by auto
  then show ?thesis
    by (subst parse_elements.simps) (auto split: sum.splits list.splits)
qed

lemma parse_members_unguarded:
  "parse_members s =
     (case s of
        [] \<Rightarrow> Inl SyntaxError
      | c # cs \<Rightarrow>
          if c = DQ then
            (case parse_chars cs of
               Inl e \<Rightarrow> Inl e
             | Inr (k, r) \<Rightarrow>
                 (case skip_ws r of
                    [] \<Rightarrow> Inl SyntaxError
                  | d # ds \<Rightarrow>
                      if d = CHR '':'' then
                        (case parse_value (skip_ws ds) of
                           Inl e \<Rightarrow> Inl e
                         | Inr (v, r') \<Rightarrow>
                             (case skip_ws r' of
                                [] \<Rightarrow> Inl SyntaxError
                              | d' # ds' \<Rightarrow>
                                  if d' = CHR ''}'' then Inr ([(k, v)], ds')
                                  else if d' = CHR '','' then
                                    cons_result (k, v) (parse_members (skip_ws ds'))
                                  else Inl SyntaxError))
                      else Inl SyntaxError))
          else Inl SyntaxError)"
proof -
  have g1: "length ds < length s"
    if "s = c # cs" "parse_chars cs = Inr (k, r)" "skip_ws r = d # ds" for c cs k r d ds
    using parse_chars_shorter [OF that(2)] that skip_ws_le [of r] by auto
  have g2: "length ds' < length s"
    if "s = c # cs" "parse_chars cs = Inr (k, r)" "skip_ws r = d # ds"
      "parse_value (skip_ws ds) = Inr (v, r')" "skip_ws r' = d' # ds'" for c cs k r d ds v r' d' ds'
    using g1 [OF that(1-3)] parse_shorter(1) [of "skip_ws ds"] that(4,5)
      skip_ws_le [of ds] skip_ws_le [of r'] by auto
  show ?thesis
  proof (cases s)
    case Nil
    then show ?thesis by (subst parse_members.simps) simp
  next
    case (Cons c cs)
    show ?thesis
    proof (cases "parse_chars cs")
      case (Inl e)
      with Cons show ?thesis by (subst parse_members.simps) simp
    next
      case (Inr kr)
      obtain k r where kr: "kr = (k, r)" by (cases kr)
      show ?thesis
      proof (cases "skip_ws r")
        case Nil
        with Cons Inr kr show ?thesis by (subst parse_members.simps) simp
      next
        case d: (Cons d ds)
        note l1 = g1 [OF Cons Inr [unfolded kr] d]
        show ?thesis
        proof (cases "parse_value (skip_ws ds)")
          case (Inl e)
          with Cons Inr kr d l1 show ?thesis by (subst parse_members.simps) simp
        next
          case v: (Inr vr)
          obtain v r' where vr: "vr = (v, r')" by (cases vr)
          show ?thesis
          proof (cases "skip_ws r'")
            case Nil
            with Cons Inr kr d l1 v vr show ?thesis by (subst parse_members.simps) simp
          next
            case d': (Cons d' ds')
            note l2 = g2 [OF Cons Inr [unfolded kr] d v [unfolded vr] d']
            from Cons Inr kr d l1 v vr d' l2 show ?thesis
              by (subst parse_members.simps) simp
          qed
        qed
      qed
    qed
  qed
qed

subsection \<open>\<^verbatim>\<open>JSON.parse\<close> after \<^verbatim>\<open>JSON.stringify\<close>\<close>

lemma hexval_hexdigit: "n < 16 \<Longrightarrow> hexval (hexdigit n) = Some n"
  by (simp add: hexval_def hexdigit_def Let_def)

lemma parse_chars_QuoteJSONChar:
  "parse_chars (QuoteJSONChar c @ s) = cons_result c (parse_chars s)"
proof -
  consider (short) "c \<in> {CHR 0x08, CHR 0x09, CHR 0x0A, CHR 0x0C, CHR 0x0D, DQ, BS}"
    | (ctrl) "c \<notin> {CHR 0x08, CHR 0x09, CHR 0x0A, CHR 0x0C, CHR 0x0D, DQ, BS}"
        "(of_char c :: nat) < 0x20"
    | (plain) "c \<notin> {CHR 0x08, CHR 0x09, CHR 0x0A, CHR 0x0C, CHR 0x0D, DQ, BS}"
        "\<not> (of_char c :: nat) < 0x20"
    by blast
  then show ?thesis
  proof cases
    case short
    then show ?thesis
      by (auto simp: QuoteJSONChar_def unescape_def)
  next
    case ctrl
    from ctrl(2) have d: "(of_char c :: nat) div 16 < 16" "(of_char c :: nat) mod 16 < 16"
      by simp_all
    have z: "hexval (CHR ''0'') = Some 0"
      by (simp add: hexval_def)
    from ctrl show ?thesis
      by (simp add: QuoteJSONChar_def z hexval_hexdigit [OF d(1)] hexval_hexdigit [OF d(2)]
          )
  next
    case plain
    then show ?thesis
      by (simp add: QuoteJSONChar_def)
  qed
qed

lemma parse_chars_quoted:
  "parse_chars (concat (map QuoteJSONChar s) @ DQ # rest) = Inr (s, rest)"
  by (induction s) (simp_all add: parse_chars_QuoteJSONChar cons_result_def)



lemma parse_value_QuoteJSONString:
  "parse_value (QuoteJSONString s @ rest) = Inr (JString s, rest)"
  by (subst parse_value.simps) (simp add: QuoteJSONString_def parse_chars_quoted)

lemma parse_value_true: "parse_value (''true'' @ rest) = Inr (JBool True, rest)"
  by (subst parse_value.simps) simp

lemma parse_value_false: "parse_value (''false'' @ rest) = Inr (JBool False, rest)"
  by (subst parse_value.simps) simp

lemma skip_ws_QuoteJSONString: "skip_ws (QuoteJSONString s @ rest) = QuoteJSONString s @ rest"
  by (simp add: QuoteJSONString_def skip_ws_def is_ws_def)

lemma parse_members_last:
  assumes "skip_ws V = V" and "parse_value V = Inr (v, CHR ''}'' # R)"
  shows "parse_members (QuoteJSONString k @ CHR '':'' # V) = Inr ([(k, v)], R)"
  by (subst parse_members.simps)
    (simp add: QuoteJSONString_def parse_chars_quoted skip_ws_Cons is_ws_def assms)

lemma parse_members_comma:
  assumes "skip_ws V = V" and "parse_value V = Inr (v, CHR '','' # R)"
    and "skip_ws R = R" and "length R < length V"
  shows "parse_members (QuoteJSONString k @ CHR '':'' # V) = cons_result (k, v) (parse_members R)"
  using assms
  by (subst parse_members.simps)
    (simp add: QuoteJSONString_def parse_chars_quoted skip_ws_Cons is_ws_def)

lemma parse_value_object:
  assumes "skip_ws M = M" and "M \<noteq> []" and "hd M \<noteq> CHR ''}''"
    and "parse_members M = Inr (ms, r)"
  shows "parse_value (CHR ''{'' # M) = Inr (object_of_members ms, r)"
  by (subst parse_value.simps) (simp add: assms)

lemma parse_value_array:
  assumes "skip_ws E = E" and "E \<noteq> []" and "hd E \<noteq> CHR '']''"
    and "parse_elements E = Inr (vs, r)"
  shows "parse_value (CHR ''['' # E) = Inr (JArray vs, r)"
  by (subst parse_value.simps) (simp add: assms)

lemma parse_elements_last:
  assumes "parse_value s = Inr (v, CHR '']'' # r)"
  shows "parse_elements s = Inr ([v], r)"
  by (subst parse_elements.simps) (simp add: assms skip_ws_Cons is_ws_def)

lemma parse_elements_comma:
  assumes "parse_value s = Inr (v, CHR '','' # r)" and "length r < length s" and "skip_ws r = r"
  shows "parse_elements s = cons_result v (parse_elements r)"
  by (subst parse_elements.simps) (simp add: assms skip_ws_Cons is_ws_def)

lemma parse_members_TodoItem:
  "parse_members (QuoteJSONString ''title'' @ '':'' @ QuoteJSONString t
       @ '','' @ QuoteJSONString ''completed'' @ '':'' @ (if c then ''true'' else ''false'')
       @ '','' @ QuoteJSONString ''id'' @ '':'' @ QuoteJSONString i @ ''}'' @ rest)
     = Inr ([(''title'', JString t), (''completed'', JBool c), (''id'', JString i)], rest)"
proof -
  let ?m3 = "QuoteJSONString ''id'' @ CHR '':'' # QuoteJSONString i @ CHR ''}'' # rest"
  let ?v2 = "(if c then ''true'' else ''false'') @ CHR '','' # ?m3"
  let ?m2 = "QuoteJSONString ''completed'' @ CHR '':'' # ?v2"
  let ?m1 = "QuoteJSONString ''title'' @ CHR '':'' # QuoteJSONString t @ CHR '','' # ?m2"
  have p3: "parse_members ?m3 = Inr ([(''id'', JString i)], rest)"
    by (rule parse_members_last) (rule skip_ws_QuoteJSONString, rule parse_value_QuoteJSONString)
  have s3: "skip_ws ?m3 = ?m3"
    by (rule skip_ws_QuoteJSONString)
  have "skip_ws ?v2 = ?v2"
    by (simp add: skip_ws_def is_ws_def)
  moreover have "parse_value ?v2 = Inr (JBool c, CHR '','' # ?m3)"
    using parse_value_true [of "CHR '','' # ?m3"] parse_value_false [of "CHR '','' # ?m3"]
    by (cases c) simp_all
  moreover have "length ?m3 < length ?v2"
    by simp
  ultimately have "parse_members ?m2 = cons_result (''completed'', JBool c) (parse_members ?m3)"
    using s3 by (intro parse_members_comma)
  then have p2: "parse_members ?m2 = Inr ([(''completed'', JBool c), (''id'', JString i)], rest)"
    by (simp add: p3 cons_result_def)
  have "parse_members ?m1 = cons_result (''title'', JString t) (parse_members ?m2)"
  proof (rule parse_members_comma)
    show "skip_ws (QuoteJSONString t @ CHR '','' # ?m2) = QuoteJSONString t @ CHR '','' # ?m2"
      by (rule skip_ws_QuoteJSONString)
    show "parse_value (QuoteJSONString t @ CHR '','' # ?m2) = Inr (JString t, CHR '','' # ?m2)"
      by (rule parse_value_QuoteJSONString)
    show "skip_ws ?m2 = ?m2"
      by (rule skip_ws_QuoteJSONString)
    show "length ?m2 < length (QuoteJSONString t @ CHR '','' # ?m2)"
      by (simp add: QuoteJSONString_def)
  qed
  then have "parse_members ?m1
      = Inr ([(''title'', JString t), (''completed'', JBool c), (''id'', JString i)], rest)"
    by (simp add: p2 cons_result_def)
  then show ?thesis by simp
qed

lemma parse_value_TodoItem:
  "parse_value (SerializeTodoItem item @ rest) = Inr (TodoItem_json item, rest)"
proof -
  let ?M = "QuoteJSONString ''title'' @ '':'' @ QuoteJSONString (title item)
       @ '','' @ QuoteJSONString ''completed'' @ '':''
       @ (if completed item then ''true'' else ''false'')
       @ '','' @ QuoteJSONString ''id'' @ '':'' @ QuoteJSONString (todo_id item) @ ''}'' @ rest"
  have "parse_value (CHR ''{'' # ?M)
      = Inr (object_of_members [(''title'', JString (title item)),
          (''completed'', JBool (completed item)), (''id'', JString (todo_id item))], rest)"
  proof (rule parse_value_object)
    show "skip_ws ?M = ?M" by (rule skip_ws_QuoteJSONString)
    show "?M \<noteq> []" by (simp add: QuoteJSONString_def)
    show "hd ?M \<noteq> CHR ''}''" by (simp add: QuoteJSONString_def)
    show "parse_members ?M = Inr ([(''title'', JString (title item)),
          (''completed'', JBool (completed item)), (''id'', JString (todo_id item))], rest)"
      by (rule parse_members_TodoItem)
  qed
  then show ?thesis
    by (simp add: SerializeTodoItem_def TodoItem_json_def TodoItem_object_def
        object_of_members_def)
qed

lemma skip_ws_join_comma:
  "skip_ws (join_comma (map SerializeTodoItem l) @ '']'' @ rest)
     = join_comma (map SerializeTodoItem l) @ '']'' @ rest"
proof (cases l)
  case Nil
  then show ?thesis by (simp add: skip_ws_def is_ws_def)
next
  case (Cons x xs)
  then show ?thesis
    by (cases xs) (simp_all add: skip_ws_def is_ws_def SerializeTodoItem_def)
qed

lemma parse_elements_TodoItems:
  "parse_elements (join_comma (map SerializeTodoItem (x # xs)) @ '']'' @ rest)
     = Inr (map TodoItem_json (x # xs), rest)"
proof (induction xs arbitrary: x)
  case Nil
  have "parse_value (SerializeTodoItem x @ CHR '']'' # rest) = Inr (TodoItem_json x, CHR '']'' # rest)"
    by (rule parse_value_TodoItem)
  from parse_elements_last [OF this] show ?case by simp
next
  case (Cons y ys)
  let ?r = "join_comma (map SerializeTodoItem (y # ys)) @ '']'' @ rest"
  have "parse_elements (SerializeTodoItem x @ CHR '','' # ?r)
      = cons_result (TodoItem_json x) (parse_elements ?r)"
  proof (rule parse_elements_comma)
    show "parse_value (SerializeTodoItem x @ CHR '','' # ?r) = Inr (TodoItem_json x, CHR '','' # ?r)"
      by (rule parse_value_TodoItem)
    show "length ?r < length (SerializeTodoItem x @ CHR '','' # ?r)"
      by simp
    show "skip_ws ?r = ?r"
      by (rule skip_ws_join_comma)
  qed
  then show ?case
    using Cons.IH [of y] by (simp add: cons_result_def)
qed

lemma JSON_parse_stringify:
  "JSON_parse (JSON_stringify l) = Inr (JArray (map TodoItem_json l))"
proof (cases l)
  case Nil
  have "parse_value ''[]'' = Inr (JArray [], [])"
    by (subst parse_value.simps) (simp add: skip_ws_def is_ws_def)
  with Nil show ?thesis
    by (simp add: JSON_parse_def JSON_stringify_def skip_ws_def is_ws_def)
next
  case (Cons x xs)
  let ?E = "join_comma (map SerializeTodoItem (x # xs)) @ '']'' @ []"
  have "parse_value (CHR ''['' # ?E) = Inr (JArray (map TodoItem_json (x # xs)), [])"
  proof (rule parse_value_array)
    show "skip_ws ?E = ?E" by (rule skip_ws_join_comma)
    show "?E \<noteq> []" by simp
    show "hd ?E \<noteq> CHR '']''"
      by (cases xs) (simp_all add: SerializeTodoItem_def)
    show "parse_elements ?E = Inr (map TodoItem_json (x # xs), [])"
      by (rule parse_elements_TodoItems)
  qed
  with Cons show ?thesis
    by (simp add: JSON_parse_def JSON_stringify_def skip_ws_def is_ws_def)
qed

lemma JSON_parse_empty_array: "JSON_parse ''[]'' = Inr (JArray [])"
  by (simp add: JSON_parse_def skip_ws_def is_ws_def parse_value.simps)

lemma TodoItem_json_object: "TodoItem_json item = JObject (TodoItem_object item)"
  by (simp add: TodoItem_json_def)

lemma set_property_id:
  "set_property ''id'' (JString u) (TodoItem_object item) = TodoItem_object (item\<lparr>todo_id := u\<rparr>)"
  by (simp add: TodoItem_object_def)

lemma TodoItem_of_object_inverse: "TodoItem_of_object (TodoItem_object item) = Some item"
  by (simp add: TodoItem_of_object_def TodoItem_object_def)

lemma JSON_stringify_not_empty: "JSON_stringify l \<noteq> []"
  by (simp add: JSON_stringify_def)

lemma enumerate_map_snd:
  "map (\<lambda>(k, y). g k (f y)) (enumerate n xs) = map (\<lambda>(k, x). g k x) (enumerate n (map f xs))"
  by (induction xs arbitrary: n) simp_all

lemma initial_list_stored:
  assumes "localStorage st ''todo-list'' = Some (JSON_stringify l)"
  shows "initial_list st
     = Inr (map (\<lambda>(k, item). TodoItem_object
                    (item\<lparr>todo_id := crypto_uuids st (crypto_calls st + k)\<rparr>)) (enumerate 0 l),
            st\<lparr>crypto_calls := crypto_calls st + length l\<rparr>)"
proof -
  have "map (\<lambda>(k, item). set_property ''id'' (JString (crypto_uuids st (crypto_calls st + k)))
              (spread item)) (enumerate 0 (map TodoItem_json l))
      = map (\<lambda>(k, item). TodoItem_object
                    (item\<lparr>todo_id := crypto_uuids st (crypto_calls st + k)\<rparr>)) (enumerate 0 l)"
    by (simp add: enumerate_map_snd [symmetric] TodoItem_json_object spread_def set_property_id)
  then show ?thesis
    by (simp add: initial_list_def assms JSON_stringify_not_empty JSON_parse_stringify)
qed

subsection \<open>Lists, sorting and timers\<close>

lemma sort_insert_incomplete:
  "\<not> completed x \<Longrightarrow> sort_insert compareFn x ys = x # ys"
  by (cases ys) (auto simp: compareFn_def)

lemma sort_insert_skip:
  "completed x \<Longrightarrow> \<forall>a\<in>set as. \<not> completed a \<Longrightarrow> \<forall>b\<in>set bs. completed b
     \<Longrightarrow> sort_insert compareFn x (as @ bs) = as @ x # bs"
proof (induction as)
  case Nil
  then show ?case by (cases bs) (auto simp: compareFn_def)
next
  case (Cons a as)
  then show ?case by (simp add: compareFn_def)
qed

lemma sort_insert_completed:
  "completed x \<Longrightarrow> sort_insert compareFn x (filter (\<lambda>t. \<not> completed t) l @ filter completed l)
     = filter (\<lambda>t. \<not> completed t) l @ x # filter completed l"
  by (rule sort_insert_skip) simp_all

lemma Array_sort_compareFn:
  "Array_sort compareFn l = filter (\<lambda>t. \<not> completed t) l @ filter completed l"
proof (induction l)
  case Nil
  show ?case by (simp add: Array_sort_def)
next
  case (Cons a l)
  have "Array_sort compareFn (a # l) = sort_insert compareFn a (Array_sort compareFn l)"
    by (simp add: Array_sort_def)
  with Cons show ?case
    by (cases "completed a") (simp_all add: sort_insert_incomplete sort_insert_completed)
qed

lemma this_list_setItem [simp]: "this_list (setItem_todo_list st) = this_list st"
  by (simp add: setItem_todo_list_def)

lemma this_list_handleCheckedTodo:
  "this_list (handleCheckedTodo i st) =
     map (\<lambda>item. if todo_id item = i then item\<lparr>completed := \<not> completed item\<rparr> else item)
       (this_list st)"
  by (simp add: handleCheckedTodo_def Let_def)

lemma this_list_handleDeleteTodo:
  "this_list (handleDeleteTodo i st) = filter (\<lambda>item. todo_id item \<noteq> i) (this_list st)"
  by (simp add: handleDeleteTodo_def)

lemma filter_one_split:
  "length (filter P xs) = 1 \<Longrightarrow>
     \<exists>ys t zs. xs = ys @ t # zs \<and> P t \<and> filter (\<lambda>x. \<not> P x) xs = ys @ zs"
proof (induction xs)
  case Nil
  then show ?case by simp
next
  case (Cons a xs)
  show ?case
  proof (cases "P a")
    case True
    with Cons.prems have "filter P xs = []" by simp
    then have "\<forall>x\<in>set xs. \<not> P x" by (simp add: filter_empty_conv)
    then have "filter (\<lambda>x. \<not> P x) xs = xs" by simp
    with True have "a # xs = [] @ a # xs \<and> P a \<and> filter (\<lambda>x. \<not> P x) (a # xs) = [] @ xs"
      by simp
    then show ?thesis by blast
  next
    case False
    with Cons.prems have "length (filter P xs) = 1" by simp
    from Cons.IH [OF this] obtain ys t zs
      where "xs = ys @ t # zs" "P t" "filter (\<lambda>x. \<not> P x) xs = ys @ zs" by blast
    with False have "a # xs = (a # ys) @ t # zs \<and> P t
        \<and> filter (\<lambda>x. \<not> P x) (a # xs) = (a # ys) @ zs" by simp
    then show ?thesis by blast
  qed
qed

lemma armed_first:
  "timers st = [] \<Longrightarrow> armed st (debouncedCheckTodo i st) i"
  by (auto simp: armed_def debouncedCheckTodo_def debounced_def clearTimeout_def
      setTimeout_def Let_def split: option.splits)

lemma armed_step:
  "armed st0 st i \<Longrightarrow> g < 300 \<Longrightarrow> armed st0 (debouncedCheckTodo j (elapse g st)) j"
  by (auto simp: armed_def debouncedCheckTodo_def debounced_def clearTimeout_def
      setTimeout_def elapse_def Let_def split: option.splits)

lemma armed_fire:
  "armed st0 st i \<Longrightarrow> 300 \<le> d \<Longrightarrow>
     this_list (elapse d st) = this_list (handleCheckedTodo i st0)
     \<and> localStorage (elapse d st) = localStorage (handleCheckedTodo i st0)
     \<and> timers (elapse d st) = []"
  by (auto simp: armed_def elapse_def Let_def handleCheckedTodo_def setItem_todo_list_def)

lemma armed_burst:
  "armed st0 st i \<Longrightarrow> \<forall>(g, j)\<in>set rs. g < 300 \<Longrightarrow>
     armed st0 (run (burst rs) st) (last (i # map snd rs))"
proof (induction rs arbitrary: st i)
  case Nil
  then show ?case by simp
next
  case (Cons r rs)
  obtain g j where r: "r = (g, j)" by (cases r)
  with Cons.prems have "armed st0 (debouncedCheckTodo j (elapse g st)) j"
    by (simp add: armed_step)
  moreover from Cons.prems have "\<forall>(g, j)\<in>set rs. g < 300" by simp
  ultimately have "armed st0 (run (burst rs) (debouncedCheckTodo j (elapse g st))) (last (j # map snd rs))"
    by (rule Cons.IH)
  with r show ?case by simp
qed

lemma run_append: "run (es @ fs) st = run fs (run es st)"
  by (induction es st rule: run.induct) simp_all

lemma run_burst_fire:
  assumes "timers st = []" and "\<forall>(g, j)\<in>set rs. g < 300" and "300 \<le> d"
  shows "this_list (run (Change i # burst rs @ [Elapse d]) st)
       = this_list (handleCheckedTodo (last (i # map snd rs)) st)"
    and "localStorage (run (Change i # burst rs @ [Elapse d]) st)
       = localStorage (handleCheckedTodo (last (i # map snd rs)) st)"
    and "timers (run (Change i # burst rs @ [Elapse d]) st) = []"
proof -
  let ?st = "run (burst rs) (debouncedCheckTodo i st)"
  have a: "armed st ?st (last (i # map snd rs))"
    using armed_first [OF assms(1)] assms(2) by (rule armed_burst)
  have r: "run (Change i # burst rs @ [Elapse d]) st = elapse d ?st"
    by (simp add: run_append)
  from armed_fire [OF a assms(3)]
  show "this_list (run (Change i # burst rs @ [Elapse d]) st)
       = this_list (handleCheckedTodo (last (i # map snd rs)) st)"
    and "localStorage (run (Change i # burst rs @ [Elapse d]) st)
       = localStorage (handleCheckedTodo (last (i # map snd rs)) st)"
    and "timers (run (Change i # burst rs @ [Elapse d]) st) = []"
    unfolding r by simp_all
qed

lemma flip_twice:
  "map (\<lambda>item. if todo_id item = i then item\<lparr>completed := \<not> completed item\<rparr> else item)
     (map (\<lambda>item. if todo_id item = i then item\<lparr>completed := \<not> completed item\<rparr> else item) l)
   = l"
  by (induction l) simp_all

subsection \<open>Generated identifiers are fresh\<close>

lemma ids_generated_empty: "this_list st = [] \<Longrightarrow> ids_generated st"
  by (simp add: ids_generated_def)

lemma fresh_uuid:
  assumes "ids_generated st" and "inj_on (crypto_uuids st) {..crypto_calls st}"
  shows "crypto_uuids st (crypto_calls st) \<notin> todo_id ` set (this_list st)"
proof
  assume "crypto_uuids st (crypto_calls st) \<in> todo_id ` set (this_list st)"
  with assms(1) obtain k where k: "k < crypto_calls st"
      "crypto_uuids st (crypto_calls st) = crypto_uuids st k"
    by (auto simp: ids_generated_def)
  from assms(2) k(2) have "crypto_calls st = k"
    by (rule inj_onD) (use k(1) in simp_all)
  with k(1) show False by simp
qed

lemma ids_generated_handleAddTodo:
  assumes "ids_generated st" and "inj_on (crypto_uuids st) {..crypto_calls st}"
  shows "ids_generated (handleAddTodo st)"
proof (cases "todoInput_value st = []")
  case True
  with assms(1) show ?thesis by (simp add: handleAddTodo_def)
next
  case False
  from assms(1) have "set (map todo_id (this_list st)) \<subseteq> crypto_uuids st ` {..<Suc (crypto_calls st)}"
    unfolding ids_generated_def lessThan_Suc by blast
  with False assms(1) fresh_uuid [OF assms] show ?thesis
    by (simp add: ids_generated_def handleAddTodo_def Let_def setItem_todo_list_def)
qed

lemma ids_generated_handleCheckedTodo:
  assumes "ids_generated st"
  shows "ids_generated (handleCheckedTodo i st)"
proof -
  have "map todo_id (map (\<lambda>item. if todo_id item = i then item\<lparr>completed := \<not> completed item\<rparr>
          else item) l) = map todo_id l" for l
    by (induction l) simp_all
  then have l: "map todo_id (this_list (handleCheckedTodo i st)) = map todo_id (this_list st)"
    unfolding this_list_handleCheckedTodo .
  have c: "crypto_uuids (handleCheckedTodo i st) = crypto_uuids st"
    "crypto_calls (handleCheckedTodo i st) = crypto_calls st"
    by (simp_all add: handleCheckedTodo_def Let_def setItem_todo_list_def)
  from assms show ?thesis
    unfolding ids_generated_def l c .
qed

lemma ids_generated_handleDeleteTodo:
  "ids_generated st \<Longrightarrow> ids_generated (handleDeleteTodo i st)"
  by (auto simp: ids_generated_def handleDeleteTodo_def setItem_todo_list_def distinct_map_filter)

lemma ids_generated_debouncedCheckTodo:
  "ids_generated st \<Longrightarrow> ids_generated (debouncedCheckTodo i st)"
  by (simp add: ids_generated_def debouncedCheckTodo_def debounced_def clearTimeout_def
      setTimeout_def Let_def split: option.splits)

lemma ids_generated_fold:
  "ids_generated st \<Longrightarrow>
     ids_generated (foldl (\<lambda>s (k, w, arg). handleCheckedTodo arg s) st ts)"
  by (induction ts arbitrary: st) (auto simp: ids_generated_handleCheckedTodo)

lemma ids_generated_elapse:
  "ids_generated st \<Longrightarrow> ids_generated (elapse d st)"
proof -
  assume a: "ids_generated st"
  let ?t = "now st + d"
  let ?st0 = "st\<lparr>timers := filter (\<lambda>(k, w, arg). \<not> w \<le> ?t) (timers st)\<rparr>"
  from a have "ids_generated ?st0" by (simp add: ids_generated_def)
  then have "ids_generated (foldl (\<lambda>s (k, w, arg). handleCheckedTodo arg s) ?st0
      (sort_key (\<lambda>(k, w, arg). w) (filter (\<lambda>(k, w, arg). w \<le> ?t) (timers st))))"
    by (rule ids_generated_fold)
  then show ?thesis
    by (simp add: elapse_def Let_def ids_generated_def)
qed

lemma ids_generated_run:
  "ids_generated st \<Longrightarrow> ids_generated (run es st)"
  by (induction es st rule: run.induct)
    (simp_all add: ids_generated_debouncedCheckTodo ids_generated_elapse)

lemma map_of_set_property: "map_of (set_property k v ps) k = Some v"
  by (induction ps) auto

lemma TodoItem_of_object_id:
  assumes "TodoItem_of_object ps = Some item"
  shows "map_of ps ''id'' = Some (JString (todo_id item))"
proof (cases "map_of ps ''title''")
  case None
  with assms show ?thesis by (simp add: TodoItem_of_object_def)
next
  case t: (Some jt)
  show ?thesis
  proof (cases "map_of ps ''completed''")
    case None
    with assms t show ?thesis by (cases jt) (simp_all add: TodoItem_of_object_def)
  next
    case c: (Some jc)
    show ?thesis
    proof (cases "map_of ps ''id''")
      case None
      with assms t c show ?thesis
        by (cases jt; cases jc) (simp_all add: TodoItem_of_object_def)
    next
      case (Some ji)
      with assms t c show ?thesis
        by (cases jt; cases jc; cases ji) (auto simp: TodoItem_of_object_def)
    qed
  qed
qed

lemma todo_id_of_object:
  "TodoItem_of_object (set_property ''id'' (JString u) ps) = Some item \<Longrightarrow> todo_id item = u"
  using TodoItem_of_object_id [of "set_property ''id'' (JString u) ps" item]
  by (simp add: map_of_set_property)

lemma ids_generated_initial_list:
  assumes i: "initial_list st = Inr (objs, st')"
    and r: "map TodoItem_of_object objs = map Some l"
    and u: "inj_on (crypto_uuids st) {..<crypto_calls st'}"
  shows "ids_generated (st'\<lparr>this_list := l\<rparr>)"
proof -
  let ?text = "case localStorage st ''todo-list'' of
                    None \<Rightarrow> ''[]''
                  | Some s \<Rightarrow> if s = [] then ''[]'' else s"
  from i obtain parsed where p: "JSON_parse ?text = Inr parsed"
    by (cases "JSON_parse ?text") (simp_all add: initial_list_def)
  from i p obtain items where a: "parsed = JArray items"
    by (cases parsed) (simp_all add: initial_list_def)
  from i p a have o: "objs = map (\<lambda>(k, item). set_property ''id''
        (JString (crypto_uuids st (crypto_calls st + k))) (spread item)) (enumerate 0 items)"
      and s: "st' = st\<lparr>crypto_calls := crypto_calls st + length items\<rparr>"
    by (simp_all add: initial_list_def)
  from r have len: "length l = length objs"
    by (metis length_map)
  with o have n: "length l = length items" by simp
  have id: "todo_id (l ! k) = crypto_uuids st (crypto_calls st + k)" if "k < length l" for k
  proof -
    from r that len have "TodoItem_of_object (objs ! k) = Some (l ! k)"
      by (metis nth_map)
    with o that n have "TodoItem_of_object (set_property ''id''
        (JString (crypto_uuids st (crypto_calls st + k))) (spread (items ! k))) = Some (l ! k)"
      by (simp add: nth_enumerate_eq)
    then show ?thesis by (rule todo_id_of_object)
  qed
  then have m: "map todo_id l = map (\<lambda>k. crypto_uuids st (crypto_calls st + k)) [0..<length l]"
    by (intro nth_equalityI) simp_all
  have "inj_on (\<lambda>k. crypto_uuids st (crypto_calls st + k)) {0..<length l}"
  proof (rule inj_onI)
    fix x y
    assume x: "x \<in> {0..<length l}" and y: "y \<in> {0..<length l}"
      and e: "crypto_uuids st (crypto_calls st + x) = crypto_uuids st (crypto_calls st + y)"
    from u e have "crypto_calls st + x = crypto_calls st + y"
      by (rule inj_onD) (use x y s n in simp_all)
    then show "x = y" by simp
  qed
  then have d: "distinct (map todo_id l)"
    unfolding m by (simp add: distinct_map)
  have "set (map todo_id l) \<subseteq> crypto_uuids st ` {..<crypto_calls st + length l}"
    unfolding m by auto
  with d s n show ?thesis
    by (simp add: ids_generated_def)
qed

subsection \<open>Persistence\<close>

text \<open>
  Claim C1, as stated, fails on the identifiers. After one item has been added (its
  identifier is the first one generated) and the list saved, the initialiser reads
  back one object with the same title and flag, whose identifier is the next one
  generated, not the stored one.
\<close>

theorem save_then_load_counterexample:
  "this_list (handleAddTodo (example_state [] ''Buy milk''))
     = [\<lparr>title = ''Buy milk'', completed = False, todo_id = example_uuids 0\<rparr>]
   \<and> localStorage (handleAddTodo (example_state [] ''Buy milk'')) ''todo-list''
     = Some (JSON_stringify (this_list (handleAddTodo (example_state [] ''Buy milk''))))
   \<and> (case initial_list (handleAddTodo (example_state [] ''Buy milk'')) of
        Inl e \<Rightarrow> False
      | Inr (objs, st') \<Rightarrow>
          objs = [TodoItem_object
                    \<lparr>title = ''Buy milk'', completed = False, todo_id = example_uuids 1\<rparr>]
          \<and> map TodoItem_of_object objs
            = [Some \<lparr>title = ''Buy milk'', completed = False, todo_id = example_uuids 1\<rparr>])
   \<and> example_uuids 1 \<noteq> example_uuids 0"
proof -
  let ?st = "handleAddTodo (example_state [] ''Buy milk'')"
  have l: "this_list ?st = [\<lparr>title = ''Buy milk'', completed = False, todo_id = example_uuids 0\<rparr>]"
    by (simp add: handleAddTodo_def Let_def example_state_def)
  have s: "localStorage ?st ''todo-list'' = Some (JSON_stringify (this_list ?st))"
    by (simp add: handleAddTodo_def Let_def example_state_def setItem_todo_list_def)
  have c: "crypto_calls ?st = 1" "crypto_uuids ?st = example_uuids"
    by (simp_all add: handleAddTodo_def Let_def example_state_def setItem_todo_list_def)
  have u: "example_uuids 1 \<noteq> example_uuids 0"
    by (simp add: example_uuids_def hexdigit_def)
  show ?thesis
    using l s u
    by (simp add: initial_list_stored [OF s] c TodoItem_object_def TodoItem_of_object_def)
qed

text \<open>
  Claim C1, amended: after \<^verbatim>\<open>localStorage.setItem("todo-list", JSON.stringify(x))\<close>
  the initialiser returns, without an error, one object per item of \<open>x\<close>, in the
  order of \<open>x\<close>; the object at place \<open>k\<close> reads as the \<^verbatim>\<open>TodoItem\<close> with the title
  and the \<^verbatim>\<open>completed\<close> flag of the item of \<open>x\<close> at place \<open>k\<close>, and with the
  identifier that \<^verbatim>\<open>crypto.randomUUID\<close> generates for it during the load in the place
  of the stored one.
\<close>

theorem save_then_load:
  "\<exists>objs. initial_list (setItem_todo_list st)
       = Inr (objs, (setItem_todo_list st)
                \<lparr>crypto_calls := crypto_calls st + length (this_list st)\<rparr>)
     \<and> length objs = length (this_list st)
     \<and> (\<forall>k<length (this_list st).
          TodoItem_of_object (objs ! k)
            = Some ((this_list st ! k)\<lparr>todo_id := crypto_uuids st (crypto_calls st + k)\<rparr>))"
proof -
  have s: "localStorage (setItem_todo_list st) ''todo-list'' = Some (JSON_stringify (this_list st))"
    by (simp add: setItem_todo_list_def)
  have c: "crypto_uuids (setItem_todo_list st) = crypto_uuids st"
    "crypto_calls (setItem_todo_list st) = crypto_calls st"
    by (simp_all add: setItem_todo_list_def)
  show ?thesis
    using initial_list_stored [OF s]
    by (simp add: c TodoItem_of_object_inverse nth_enumerate_eq)
qed

theorem save_then_load_witness:
  "length (this_list (example_state [example_items ! 0, example_items ! 1] [])) = 2
   \<and> (case initial_list (setItem_todo_list (example_state [example_items ! 0, example_items ! 1] [])) of
        Inl e \<Rightarrow> False
      | Inr (objs, st') \<Rightarrow>
          map TodoItem_of_object objs
            = [Some \<lparr>title = ''Buy milk'', completed = True, todo_id = example_uuids 0\<rparr>,
               Some \<lparr>title = ''Walk dog'', completed = False, todo_id = example_uuids 1\<rparr>])"
proof -
  let ?st = "example_state [example_items ! 0, example_items ! 1] []"
  have l: "this_list ?st = [example_items ! 0, example_items ! 1]"
    by (simp add: example_state_def)
  from save_then_load [of ?st] obtain objs
    where i: "initial_list (setItem_todo_list ?st)
        = Inr (objs, (setItem_todo_list ?st)\<lparr>crypto_calls := crypto_calls ?st + length (this_list ?st)\<rparr>)"
      and n: "length objs = length (this_list ?st)"
      and r: "\<forall>k<length (this_list ?st). TodoItem_of_object (objs ! k)
            = Some ((this_list ?st ! k)\<lparr>todo_id := crypto_uuids ?st (crypto_calls ?st + k)\<rparr>)"
    by blast
  from n l obtain a b where o: "objs = [a, b]"
    by (cases objs; cases "tl objs") auto
  from r l o have "TodoItem_of_object a = Some ((example_items ! 0)\<lparr>todo_id := example_uuids 0\<rparr>)"
    "TodoItem_of_object b = Some ((example_items ! 1)\<lparr>todo_id := example_uuids 1\<rparr>)"
    by (auto simp: example_state_def)
  with i o l show ?thesis
    by (simp add: example_items_def)
qed

text \<open>
  Claim C2, as stated, fails: a stored text that is not JSON makes \<^verbatim>\<open>JSON.parse\<close>
  throw a \<^verbatim>\<open>SyntaxError\<close>, and a stored JSON text that is not an array makes the call
  of \<^verbatim>\<open>.map\<close> throw a \<^verbatim>\<open>TypeError\<close>; nothing catches either.
\<close>

theorem load_malformed_counterexample:
  "initial_list ((example_state [] [])\<lparr>localStorage := [''todo-list'' \<mapsto> ''not json'']\<rparr>)
     = Inl SyntaxError
   \<and> initial_list ((example_state [] [])\<lparr>localStorage := [''todo-list'' \<mapsto> ''[{'']\<rparr>)
     = Inl SyntaxError
   \<and> initial_list ((example_state [] [])\<lparr>localStorage := [''todo-list'' \<mapsto> ''{}'']\<rparr>)
     = Inl TypeError"
  by (simp add: initial_list_def JSON_parse_def skip_ws_def is_ws_def parse_value.simps
      parse_elements.simps)

text \<open>
  Claim C2, amended: when the key is absent or holds the empty string, the
  initialiser returns the empty list and raises nothing. For any other stored text,
  a \<^verbatim>\<open>SyntaxError\<close> of \<^verbatim>\<open>JSON.parse\<close> propagates; a text that parses to a value other
  than an array gives a \<^verbatim>\<open>TypeError\<close>; a text that parses to an array gives one
  object per element.
\<close>

theorem load_absent_or_empty:
  "(localStorage st ''todo-list'' = None \<or> localStorage st ''todo-list'' = Some []
      \<longrightarrow> initial_list st = Inr ([], st))
   \<and> (\<forall>b. localStorage st ''todo-list'' = Some b \<and> b \<noteq> [] \<and> JSON_parse b = Inl SyntaxError
        \<longrightarrow> initial_list st = Inl SyntaxError)
   \<and> (\<forall>b v. localStorage st ''todo-list'' = Some b \<and> b \<noteq> [] \<and> JSON_parse b = Inr v
          \<and> (\<forall>items. v \<noteq> JArray items)
        \<longrightarrow> initial_list st = Inl TypeError)
   \<and> (\<forall>b items. localStorage st ''todo-list'' = Some b \<and> b \<noteq> []
          \<and> JSON_parse b = Inr (JArray items)
        \<longrightarrow> (\<exists>objs st'. initial_list st = Inr (objs, st') \<and> length objs = length items))"
proof -
  have a: "initial_list st = Inr ([], st)"
    if "localStorage st ''todo-list'' = None \<or> localStorage st ''todo-list'' = Some []"
    using that by (auto simp: initial_list_def JSON_parse_empty_array)
  have b: "initial_list st = Inl SyntaxError"
    if "localStorage st ''todo-list'' = Some b" "b \<noteq> []" "JSON_parse b = Inl SyntaxError" for b
    using that by (simp add: initial_list_def)
  have c: "initial_list st = Inl TypeError"
    if "localStorage st ''todo-list'' = Some b" "b \<noteq> []" "JSON_parse b = Inr v"
      "\<forall>items. v \<noteq> JArray items" for b v
    using that by (cases v) (simp_all add: initial_list_def)
  have d: "\<exists>objs st'. initial_list st = Inr (objs, st') \<and> length objs = length items"
    if "localStorage st ''todo-list'' = Some b" "b \<noteq> []" "JSON_parse b = Inr (JArray items)"
    for b items
    using that by (simp add: initial_list_def)
  show ?thesis
    using a b c d by blast
qed

theorem load_absent_or_empty_witness:
  "localStorage (example_state [] []) ''todo-list'' = None
   \<and> initial_list (example_state [] []) = Inr ([], example_state [] [])
   \<and> initial_list ((example_state [] [])\<lparr>localStorage := [''todo-list'' \<mapsto> []]\<rparr>)
       = Inr ([], (example_state [] [])\<lparr>localStorage := [''todo-list'' \<mapsto> []]\<rparr>)
   \<and> JSON_parse ''[1,'' = Inl SyntaxError
   \<and> initial_list ((example_state [] [])\<lparr>localStorage := [''todo-list'' \<mapsto> ''[1,'']\<rparr>)
       = Inl SyntaxError
   \<and> JSON_parse ''null'' = Inr JNull
   \<and> initial_list ((example_state [] [])\<lparr>localStorage := [''todo-list'' \<mapsto> ''null'']\<rparr>)
       = Inl TypeError"
proof -
  have p: "JSON_parse ''[1,'' = Inl SyntaxError" "JSON_parse ''null'' = Inr JNull"
    by (simp_all add: JSON_parse_def skip_ws_def is_ws_def parse_value.simps parse_elements.simps
        parse_number_def parse_int_def parse_digits_def is_digit_def parse_frac_def parse_exp_def
        cons_result_def)
  show ?thesis
    using p load_absent_or_empty [of "example_state [] []"]
      load_absent_or_empty [of "(example_state [] [])\<lparr>localStorage := [''todo-list'' \<mapsto> []]\<rparr>"]
      load_absent_or_empty [of "(example_state [] [])\<lparr>localStorage := [''todo-list'' \<mapsto> ''[1,'']\<rparr>"]
      load_absent_or_empty [of "(example_state [] [])\<lparr>localStorage := [''todo-list'' \<mapsto> ''null'']\<rparr>"]
    by (simp add: example_state_def)
qed

subsection \<open>Adding\<close>

text \<open>
  Claim C3, as stated, fails: a title of one space is not the empty string, so
  \<^verbatim>\<open>!value\<close> is false and \<^verbatim>\<open>_handleAddTodo\<close> appends an item whose title is the
  space, writes the list to storage and empties the input field.
\<close>

theorem handleAddTodo_whitespace_counterexample:
  "this_list (handleAddTodo (example_state [] '' ''))
     = [\<lparr>title = '' '', completed = False, todo_id = example_uuids 0\<rparr>]
   \<and> this_list (handleAddTodo (example_state [] '' '')) \<noteq> this_list (example_state [] '' '')
   \<and> localStorage (handleAddTodo (example_state [] '' '')) ''todo-list'' \<noteq> None
   \<and> localStorage (example_state [] '' '') ''todo-list'' = None
   \<and> todoInput_value (handleAddTodo (example_state [] '' '')) = []"
  by (simp add: example_state_def example_uuids_def handleAddTodo_def Let_def
      setItem_todo_list_def)

text \<open>
  Claim C3, amended: when the input field holds the empty string, \<^verbatim>\<open>_handleAddTodo\<close>
  changes nothing: the list, the storage and the input field (and every other part of
  the state) are as before.
\<close>

theorem handleAddTodo_empty:
  "todoInput_value st = [] \<Longrightarrow> handleAddTodo st = st"
  by (simp add: handleAddTodo_def)

theorem handleAddTodo_empty_witness:
  "todoInput_value (example_state example_items []) = []
   \<and> handleAddTodo (example_state example_items []) = example_state example_items []"
proof -
  have h: "todoInput_value (example_state example_items []) = []"
    by (simp add: example_state_def)
  show ?thesis using h handleAddTodo_empty [OF h] by simp
qed

text \<open>
  Claim C8: for a non-empty input text, \<^verbatim>\<open>_handleAddTodo\<close> appends exactly one item
  with that title, \<^verbatim>\<open>completed\<close> false and the identifier \<^verbatim>\<open>crypto.randomUUID\<close> returns
  at the end of the list; the items already there keep their fields and places; the new
  list is written to storage and the input field is emptied. The identifier is fresh
  and unique: when the identifiers of the list are distinct and were all generated
  earlier (\<open>ids_generated\<close>), and \<^verbatim>\<open>crypto.randomUUID\<close> does not return again an
  identifier it has returned before (\<open>inj_on\<close> on the calls made so far and this
  one), the new identifier is that of no item of the list, the identifiers of the new
  list are distinct, and the new list has the same property again. The property holds
  for an empty list (\<open>ids_generated_empty\<close>), for the list the initialiser loads
  (\<open>ids_generated_initial_list\<close>), and it is kept by the other handlers and by the
  timers (\<open>ids_generated_handleCheckedTodo\<close>, \<open>ids_generated_handleDeleteTodo\<close>,
  \<open>ids_generated_run\<close>).
\<close>

theorem handleAddTodo_appends:
  "todoInput_value st \<noteq> [] \<Longrightarrow>
     this_list (handleAddTodo st)
       = this_list st @ [\<lparr>title = todoInput_value st, completed = False,
                           todo_id = crypto_uuids st (crypto_calls st)\<rparr>]
     \<and> take (length (this_list st)) (this_list (handleAddTodo st)) = this_list st
     \<and> length (this_list (handleAddTodo st)) = Suc (length (this_list st))
     \<and> localStorage (handleAddTodo st)
         = (localStorage st)(''todo-list'' \<mapsto> JSON_stringify (this_list (handleAddTodo st)))
     \<and> todoInput_value (handleAddTodo st) = []
     \<and> crypto_calls (handleAddTodo st) = Suc (crypto_calls st)
     \<and> (distinct (map todo_id (this_list st))
          \<and> crypto_uuids st (crypto_calls st) \<notin> todo_id ` set (this_list st)
          \<longrightarrow> distinct (map todo_id (this_list (handleAddTodo st))))
     \<and> (ids_generated st \<and> inj_on (crypto_uuids st) {..crypto_calls st}
          \<longrightarrow> crypto_uuids st (crypto_calls st) \<notin> todo_id ` set (this_list st)
            \<and> distinct (map todo_id (this_list (handleAddTodo st)))
            \<and> ids_generated (handleAddTodo st))"
proof -
  assume v: "todoInput_value st \<noteq> []"
  have g: "crypto_uuids st (crypto_calls st) \<notin> todo_id ` set (this_list st)
      \<and> distinct (map todo_id (this_list (handleAddTodo st)))
      \<and> ids_generated (handleAddTodo st)"
    if "ids_generated st" "inj_on (crypto_uuids st) {..crypto_calls st}"
    using fresh_uuid [OF that] ids_generated_handleAddTodo [OF that]
    by (simp add: ids_generated_def)
  from v have "this_list (handleAddTodo st)
       = this_list st @ [\<lparr>title = todoInput_value st, completed = False,
                           todo_id = crypto_uuids st (crypto_calls st)\<rparr>]
     \<and> take (length (this_list st)) (this_list (handleAddTodo st)) = this_list st
     \<and> length (this_list (handleAddTodo st)) = Suc (length (this_list st))
     \<and> localStorage (handleAddTodo st)
         = (localStorage st)(''todo-list'' \<mapsto> JSON_stringify (this_list (handleAddTodo st)))
     \<and> todoInput_value (handleAddTodo st) = []
     \<and> crypto_calls (handleAddTodo st) = Suc (crypto_calls st)
     \<and> (distinct (map todo_id (this_list st))
          \<and> crypto_uuids st (crypto_calls st) \<notin> todo_id ` set (this_list st)
          \<longrightarrow> distinct (map todo_id (this_list (handleAddTodo st))))"
    by (simp add: handleAddTodo_def Let_def setItem_todo_list_def)
  with g show ?thesis by blast
qed

theorem handleAddTodo_appends_witness:
  "todoInput_value (example_state [example_items ! 0, example_items ! 1] ''Call Bob'') \<noteq> []
   \<and> distinct (map todo_id
        (this_list (example_state [example_items ! 0, example_items ! 1] ''Call Bob'')))
   \<and> this_list (handleAddTodo (example_state [example_items ! 0, example_items ! 1] ''Call Bob''))
       = [example_items ! 0, example_items ! 1,
          \<lparr>title = ''Call Bob'', completed = False, todo_id = example_uuids 0\<rparr>]
   \<and> distinct (map todo_id (this_list
        (handleAddTodo (example_state [example_items ! 0, example_items ! 1] ''Call Bob''))))
   \<and> todoInput_value
        (handleAddTodo (example_state [example_items ! 0, example_items ! 1] ''Call Bob'')) = []
   \<and> todoInput_value ((example_state
          [\<lparr>title = ''Buy milk'', completed = False, todo_id = example_uuids 0\<rparr>] ''Call Bob'')
          \<lparr>crypto_calls := 1\<rparr>) \<noteq> []
   \<and> ids_generated ((example_state
          [\<lparr>title = ''Buy milk'', completed = False, todo_id = example_uuids 0\<rparr>] ''Call Bob'')
          \<lparr>crypto_calls := 1\<rparr>)
   \<and> inj_on example_uuids {..1}
   \<and> this_list (handleAddTodo ((example_state
          [\<lparr>title = ''Buy milk'', completed = False, todo_id = example_uuids 0\<rparr>] ''Call Bob'')
          \<lparr>crypto_calls := 1\<rparr>))
       = [\<lparr>title = ''Buy milk'', completed = False, todo_id = example_uuids 0\<rparr>,
          \<lparr>title = ''Call Bob'', completed = False, todo_id = example_uuids 1\<rparr>]
   \<and> distinct (map todo_id (this_list (handleAddTodo ((example_state
          [\<lparr>title = ''Buy milk'', completed = False, todo_id = example_uuids 0\<rparr>] ''Call Bob'')
          \<lparr>crypto_calls := 1\<rparr>))))
   \<and> ids_generated (handleAddTodo ((example_state
          [\<lparr>title = ''Buy milk'', completed = False, todo_id = example_uuids 0\<rparr>] ''Call Bob'')
          \<lparr>crypto_calls := 1\<rparr>))"
proof -
  let ?a = "example_state [example_items ! 0, example_items ! 1] ''Call Bob''"
  let ?b = "(example_state
          [\<lparr>title = ''Buy milk'', completed = False, todo_id = example_uuids 0\<rparr>] ''Call Bob'')
          \<lparr>crypto_calls := 1\<rparr>"
  have a: "todoInput_value ?a \<noteq> []"
    by (simp add: example_state_def)
  have d: "distinct (map todo_id (this_list ?a))"
    by (simp add: example_state_def example_items_def)
  have f: "crypto_uuids ?a (crypto_calls ?a) \<notin> todo_id ` set (this_list ?a)"
    by (simp add: example_state_def example_items_def example_uuids_def)
  note A = handleAddTodo_appends [OF a]
  from A have "this_list (handleAddTodo ?a)
      = this_list ?a @ [\<lparr>title = todoInput_value ?a, completed = False,
                         todo_id = crypto_uuids ?a (crypto_calls ?a)\<rparr>]"
    by blast
  then have a1: "this_list (handleAddTodo ?a)
       = [example_items ! 0, example_items ! 1,
          \<lparr>title = ''Call Bob'', completed = False, todo_id = example_uuids 0\<rparr>]"
    by (simp add: example_state_def)
  from A d f have a2: "distinct (map todo_id (this_list (handleAddTodo ?a)))"
    by blast
  from A have a3: "todoInput_value (handleAddTodo ?a) = []"
    by blast
  have v: "todoInput_value ?b \<noteq> []"
    by (simp add: example_state_def)
  have g: "ids_generated ?b"
    by (simp add: ids_generated_def example_state_def lessThan_Suc)
  have u: "inj_on example_uuids {..1}"
    by (simp add: inj_on_def atMost_Suc example_uuids_def hexdigit_def)
  have c: "crypto_uuids ?b = example_uuids" "crypto_calls ?b = 1"
    by (simp_all add: example_state_def)
  from u have u': "inj_on (crypto_uuids ?b) {..crypto_calls ?b}"
    unfolding c .
  note B = handleAddTodo_appends [OF v]
  from B have "this_list (handleAddTodo ?b)
      = this_list ?b @ [\<lparr>title = todoInput_value ?b, completed = False,
                         todo_id = crypto_uuids ?b (crypto_calls ?b)\<rparr>]"
    by blast
  then have b1: "this_list (handleAddTodo ?b)
       = [\<lparr>title = ''Buy milk'', completed = False, todo_id = example_uuids 0\<rparr>,
          \<lparr>title = ''Call Bob'', completed = False, todo_id = example_uuids 1\<rparr>]"
    by (simp add: example_state_def)
  from B g u' have b2: "distinct (map todo_id (this_list (handleAddTodo ?b)))"
    and b3: "ids_generated (handleAddTodo ?b)"
    by blast+
  from a d a1 a2 a3 v g u b1 b2 b3 show ?thesis
    by (intro conjI)
qed

subsection \<open>Display order\<close>

text \<open>
  Claim C4: the display order has the same multiset of items as the list, is the
  incomplete items followed by the completed ones (so every incomplete item comes
  before every completed one), keeps within each group the order of the list, and
  computing it leaves the list, and the whole state, as it was.
\<close>

theorem render_display_order:
  "mset (fst (render_sortedList st)) = mset (this_list st)
   \<and> fst (render_sortedList st)
       = filter (\<lambda>t. \<not> completed t) (this_list st) @ filter completed (this_list st)
   \<and> (\<forall>i j. i < length (this_list st) \<and> j < length (this_list st)
          \<and> \<not> completed (fst (render_sortedList st) ! i)
          \<and> completed (fst (render_sortedList st) ! j) \<longrightarrow> i < j)
   \<and> filter (\<lambda>t. \<not> completed t) (fst (render_sortedList st))
       = filter (\<lambda>t. \<not> completed t) (this_list st)
   \<and> filter completed (fst (render_sortedList st)) = filter completed (this_list st)
   \<and> snd (render_sortedList st) = st"
proof -
  let ?l = "this_list st"
  let ?A = "filter (\<lambda>t. \<not> completed t) ?l"
  let ?B = "filter completed ?l"
  have d: "fst (render_sortedList st) = ?A @ ?B"
    by (simp add: render_sortedList_def Array_sort_compareFn)
  have m: "mset (?A @ ?B) = mset ?l"
    by (induction ?l) simp_all
  have len: "length ?A + length ?B = length ?l"
    using m by (metis length_append size_mset)
  have ord: "i < j" if "i < length ?l" "j < length ?l"
    "\<not> completed ((?A @ ?B) ! i)" "completed ((?A @ ?B) ! j)" for i j
  proof -
    have i: "i < length ?A"
    proof (rule ccontr)
      assume n: "\<not> i < length ?A"
      with that(1) len have "i - length ?A < length ?B" by simp
      then have "?B ! (i - length ?A) \<in> set ?B" by (rule nth_mem)
      then have "completed (?B ! (i - length ?A))" by simp
      with n that(3) show False by (simp add: nth_append)
    qed
    have j: "\<not> j < length ?A"
    proof
      assume n: "j < length ?A"
      then have "?A ! j \<in> set ?A" by (rule nth_mem)
      then have "\<not> completed (?A ! j)" by simp
      with n that(4) show False by (simp add: nth_append)
    qed
    from i j show ?thesis by simp
  qed
  have fa: "filter (\<lambda>t. \<not> completed t) (?A @ ?B) = ?A"
    by simp
  have fb: "filter completed (?A @ ?B) = ?B"
    by simp
  have s: "snd (render_sortedList st) = st"
    by (simp add: render_sortedList_def)
  show ?thesis
    unfolding d using m ord fa fb s by blast
qed

theorem render_display_order_witness:
  "(1::nat) < length (this_list (example_state example_items []))
   \<and> 2 < length (this_list (example_state example_items []))
   \<and> \<not> completed (fst (render_sortedList (example_state example_items [])) ! 1)
   \<and> completed (fst (render_sortedList (example_state example_items [])) ! 2)
   \<and> fst (render_sortedList (example_state example_items []))
       = [example_items ! 1, example_items ! 3, example_items ! 0, example_items ! 2]"
  using render_display_order [of "example_state example_items []"]
  by (simp add: example_state_def example_items_def)

subsection \<open>Toggling\<close>

text \<open>
  Claim C5: \<^verbatim>\<open>_handleCheckedTodo(id)\<close> keeps the length of the list; at each position,
  an item whose identifier is \<^verbatim>\<open>id\<close> has its \<^verbatim>\<open>completed\<close> flag negated and its title
  and identifier kept, and any other item is unchanged; when no identifier matches,
  the list is the original one. The function is total (nothing is raised), and the
  resulting list is written to storage.
\<close>

theorem handleCheckedTodo_toggle:
  "length (this_list (handleCheckedTodo i st)) = length (this_list st)
   \<and> (\<forall>k < length (this_list st).
        (todo_id (this_list st ! k) = i \<longrightarrow>
           this_list (handleCheckedTodo i st) ! k
             = (this_list st ! k)\<lparr>completed := \<not> completed (this_list st ! k)\<rparr>)
        \<and> (todo_id (this_list st ! k) \<noteq> i \<longrightarrow>
           this_list (handleCheckedTodo i st) ! k = this_list st ! k))
   \<and> (i \<notin> todo_id ` set (this_list st) \<longrightarrow>
        this_list (handleCheckedTodo i st) = this_list st)
   \<and> localStorage (handleCheckedTodo i st)
       = (localStorage st)(''todo-list'' \<mapsto> JSON_stringify (this_list (handleCheckedTodo i st)))"
proof -
  have same: "this_list (handleCheckedTodo i st) = this_list st"
    if "i \<notin> todo_id ` set (this_list st)"
  proof -
    from that have "\<forall>t\<in>set (this_list st). todo_id t \<noteq> i" by blast
    then show ?thesis
      unfolding this_list_handleCheckedTodo by (simp add: map_idI)
  qed
  have store: "localStorage (handleCheckedTodo i st)
       = (localStorage st)(''todo-list'' \<mapsto> JSON_stringify (this_list (handleCheckedTodo i st)))"
    by (simp add: handleCheckedTodo_def Let_def setItem_todo_list_def)
  show ?thesis
    using same store by (simp add: this_list_handleCheckedTodo)
qed

theorem handleCheckedTodo_toggle_witness:
  "(0::nat) < length (this_list (example_state example_items []))
   \<and> todo_id (this_list (example_state example_items []) ! 0) = ''1''
   \<and> this_list (handleCheckedTodo ''1'' (example_state example_items [])) ! 0
       = \<lparr>title = ''Buy milk'', completed = False, todo_id = ''1''\<rparr>
   \<and> todo_id (this_list (example_state example_items []) ! 0) \<noteq> ''3''
   \<and> this_list (handleCheckedTodo ''3'' (example_state example_items [])) ! 0
       = \<lparr>title = ''Buy milk'', completed = True, todo_id = ''1''\<rparr>
   \<and> ''7'' \<notin> todo_id ` set (this_list (example_state example_items []))
   \<and> this_list (handleCheckedTodo ''7'' (example_state example_items [])) = example_items"
  using handleCheckedTodo_toggle [of "''1''" "example_state example_items []"]
    handleCheckedTodo_toggle [of "''3''" "example_state example_items []"]
    handleCheckedTodo_toggle [of "''7''" "example_state example_items []"]
  by (simp add: example_state_def example_items_def)

text \<open>
  Claim C9: applying \<^verbatim>\<open>_handleCheckedTodo(id)\<close> twice gives back the original list,
  with every item, flag and position; the state differs from the original one at most
  in the storage, which holds the serialised original list. The same holds through
  the debounced entry point: two change events for the same identifier, each followed
  by 300 ms or more without an event, starting with no timer pending, leave the
  original list, in the component and in storage.
\<close>

theorem handleCheckedTodo_twice:
  "handleCheckedTodo i (handleCheckedTodo i st)
     = st\<lparr>localStorage := (localStorage st)(''todo-list'' \<mapsto> JSON_stringify (this_list st))\<rparr>
   \<and> (timers st = [] \<and> 300 \<le> d1 \<and> 300 \<le> d2 \<longrightarrow>
        this_list (run [Change i, Elapse d1, Change i, Elapse d2] st) = this_list st
        \<and> localStorage (run [Change i, Elapse d1, Change i, Elapse d2] st)
            = (localStorage st)(''todo-list'' \<mapsto> JSON_stringify (this_list st)))"
proof -
  have direct: "handleCheckedTodo i (handleCheckedTodo i st)
     = st\<lparr>localStorage := (localStorage st)(''todo-list'' \<mapsto> JSON_stringify (this_list st))\<rparr>"
    using flip_twice [of i "this_list st"]
    by (simp add: handleCheckedTodo_def Let_def setItem_todo_list_def)
  have debounced: "this_list (run [Change i, Elapse d1, Change i, Elapse d2] st) = this_list st
        \<and> localStorage (run [Change i, Elapse d1, Change i, Elapse d2] st)
            = (localStorage st)(''todo-list'' \<mapsto> JSON_stringify (this_list st))"
    if t: "timers st = []" and d: "300 \<le> d1" "300 \<le> d2"
  proof -
    let ?st1 = "run [Change i, Elapse d1] st"
    have f1: "this_list ?st1 = this_list (handleCheckedTodo i st)"
      "localStorage ?st1 = localStorage (handleCheckedTodo i st)" "timers ?st1 = []"
      using run_burst_fire [OF t, of "[]" d1 i] d(1) by simp_all
    have r: "run [Change i, Elapse d1, Change i, Elapse d2] st = run [Change i, Elapse d2] ?st1"
      by simp
    have f2: "this_list (run [Change i, Elapse d2] ?st1) = this_list (handleCheckedTodo i ?st1)"
      "localStorage (run [Change i, Elapse d2] ?st1) = localStorage (handleCheckedTodo i ?st1)"
      using run_burst_fire [OF f1(3), of "[]" d2 i] d(2) by simp_all
    have l: "this_list (handleCheckedTodo i ?st1) = this_list st"
      unfolding this_list_handleCheckedTodo f1(1) by (rule flip_twice)
    have s: "localStorage (handleCheckedTodo i ?st1)
        = (localStorage st)(''todo-list'' \<mapsto> JSON_stringify (this_list st))"
      using l f1(2)
      by (simp add: handleCheckedTodo_def Let_def setItem_todo_list_def)
    show ?thesis
      unfolding r f2 using l s by simp
  qed
  show ?thesis
    using direct debounced by blast
qed

theorem handleCheckedTodo_twice_witness:
  "timers (example_state example_items []) = [] \<and> (300::nat) \<le> 300 \<and> (300::nat) \<le> 450
   \<and> this_list (run [Change ''2'', Elapse 300, Change ''2'', Elapse 450]
        (example_state example_items [])) = example_items
   \<and> this_list (handleCheckedTodo ''2'' (handleCheckedTodo ''2'' (example_state example_items [])))
       = example_items"
  using handleCheckedTodo_twice [of "''2''" "example_state example_items []" 300 450]
  by (simp add: example_state_def)

subsection \<open>Debouncing\<close>

text \<open>
  Claim C6: let a burst of change events start while no timer is pending, each further
  event coming less than 300 ms after the one before it (two events for the same
  identifier 10 ms apart are such a burst). While the burst lasts nothing is applied:
  list and storage are as before. Once 300 ms or more have passed after the last
  event, list and storage are those of a single call of \<^verbatim>\<open>_handleCheckedTodo\<close> on the
  state before the burst, with the identifier of the last event, and no timer is left
  pending.
\<close>

theorem debounce_burst:
  assumes "timers st = []" and "\<forall>(g, j)\<in>set rs. g < 300" and "300 \<le> d"
  shows "this_list (run (Change i # burst rs) st) = this_list st
    \<and> localStorage (run (Change i # burst rs) st) = localStorage st
    \<and> this_list (run (Change i # burst rs @ [Elapse d]) st)
       = this_list (handleCheckedTodo (last (i # map snd rs)) st)
    \<and> localStorage (run (Change i # burst rs @ [Elapse d]) st)
       = localStorage (handleCheckedTodo (last (i # map snd rs)) st)
    \<and> timers (run (Change i # burst rs @ [Elapse d]) st) = []"
proof -
  let ?st = "run (burst rs) (debouncedCheckTodo i st)"
  have a: "armed st ?st (last (i # map snd rs))"
    using armed_first [OF assms(1)] assms(2) by (rule armed_burst)
  have r: "run (Change i # burst rs @ [Elapse d]) st = elapse d ?st"
    by (simp add: run_append)
  from a have "this_list ?st = this_list st \<and> localStorage ?st = localStorage st"
    by (simp add: armed_def)
  moreover note armed_fire [OF a assms(3)]
  ultimately show ?thesis unfolding r by simp
qed

theorem debounce_burst_witness:
  "timers (example_state example_items []) = []
   \<and> (10::nat) < 300 \<and> (300::nat) \<le> 300
   \<and> this_list (run [Change ''1'', Elapse 10, Change ''1''] (example_state example_items []))
       = example_items
   \<and> this_list (run [Change ''1'', Elapse 10, Change ''1'', Elapse 300]
        (example_state example_items []))
       = [\<lparr>title = ''Buy milk'', completed = False, todo_id = ''1''\<rparr>,
          example_items ! 1, example_items ! 2, example_items ! 3]
   \<and> localStorage (run [Change ''1'', Elapse 10, Change ''1'', Elapse 300]
        (example_state example_items [])) ''todo-list''
       = Some (JSON_stringify [\<lparr>title = ''Buy milk'', completed = False, todo_id = ''1''\<rparr>,
          example_items ! 1, example_items ! 2, example_items ! 3])"
  using debounce_burst [of "example_state example_items []" "[(10, ''1'')]" 300 "''1''"]
  by (simp add: example_state_def example_items_def handleCheckedTodo_def Let_def
      setItem_todo_list_def)

subsection \<open>Deleting\<close>

text \<open>
  Claim C7: when exactly one item has the identifier X, \<^verbatim>\<open>_handleDeleteTodo(X)\<close>
  gives a list one shorter, with no item of identifier X, which is the original list
  with that one item taken out (the others unchanged and in their order); when no item
  has the identifier X, the list is unchanged. The resulting list is written to
  storage.
\<close>

theorem handleDeleteTodo_one:
  "(length (filter (\<lambda>t. todo_id t = X) (this_list st)) = 1 \<longrightarrow>
      length (this_list (handleDeleteTodo X st)) = length (this_list st) - 1
      \<and> X \<notin> todo_id ` set (this_list (handleDeleteTodo X st))
      \<and> (\<exists>ys t zs. this_list st = ys @ t # zs \<and> todo_id t = X
            \<and> this_list (handleDeleteTodo X st) = ys @ zs))
   \<and> (X \<notin> todo_id ` set (this_list st) \<longrightarrow>
        this_list (handleDeleteTodo X st) = this_list st)
   \<and> localStorage (handleDeleteTodo X st)
       = (localStorage st)(''todo-list'' \<mapsto> JSON_stringify (this_list (handleDeleteTodo X st)))"
proof -
  let ?l = "this_list st"
  let ?r = "this_list (handleDeleteTodo X st)"
  have r: "?r = filter (\<lambda>t. todo_id t \<noteq> X) ?l"
    by (rule this_list_handleDeleteTodo)
  have one: "length ?r = length ?l - 1 \<and> X \<notin> todo_id ` set ?r
      \<and> (\<exists>ys t zs. ?l = ys @ t # zs \<and> todo_id t = X \<and> ?r = ys @ zs)"
    if "length (filter (\<lambda>t. todo_id t = X) ?l) = 1"
  proof -
    from filter_one_split [OF that] obtain ys t zs
      where s: "?l = ys @ t # zs" "todo_id t = X" "?r = ys @ zs"
      unfolding r by blast
    have "length ?r = length ?l - 1" using s by simp
    moreover have "X \<notin> todo_id ` set ?r" unfolding r by auto
    ultimately show ?thesis using s by blast
  qed
  have none: "?r = ?l" if "X \<notin> todo_id ` set ?l"
  proof -
    from that have "\<forall>t\<in>set ?l. todo_id t \<noteq> X" by blast
    then show ?thesis unfolding r by simp
  qed
  have store: "localStorage (handleDeleteTodo X st)
       = (localStorage st)(''todo-list'' \<mapsto> JSON_stringify ?r)"
    by (simp add: handleDeleteTodo_def setItem_todo_list_def)
  show ?thesis using one none store by blast
qed

theorem handleDeleteTodo_one_witness:
  "length (filter (\<lambda>t. todo_id t = ''3'') (this_list (example_state example_items []))) = 1
   \<and> this_list (handleDeleteTodo ''3'' (example_state example_items []))
       = [example_items ! 0, example_items ! 1, example_items ! 3]
   \<and> ''7'' \<notin> todo_id ` set (this_list (example_state example_items []))
   \<and> this_list (handleDeleteTodo ''7'' (example_state example_items [])) = example_items"
  using handleDeleteTodo_one [of "''3''" "example_state example_items []"]
    handleDeleteTodo_one [of "''7''" "example_state example_items []"]
  by (simp add: example_state_def example_items_def handleDeleteTodo_def)

text \<open>
  Claim C10: when several items share an identifier, \<^verbatim>\<open>_handleDeleteTodo\<close> removes
  all of them (no item of the result has the identifier, and the result is shorter by
  the number of matching items), and \<^verbatim>\<open>_handleCheckedTodo\<close> negates the flag of every
  matching item.
\<close>

theorem every_match_deleted_and_toggled:
  "(\<forall>t\<in>set (this_list (handleDeleteTodo X st)). todo_id t \<noteq> X)
   \<and> length (this_list (handleDeleteTodo X st))
        + length (filter (\<lambda>t. todo_id t = X) (this_list st)) = length (this_list st)
   \<and> length (this_list (handleCheckedTodo X st)) = length (this_list st)
   \<and> (\<forall>k < length (this_list st). todo_id (this_list st ! k) = X \<longrightarrow>
         completed (this_list (handleCheckedTodo X st) ! k)
           = (\<not> completed (this_list st ! k)))"
proof -
  have "length (filter (\<lambda>t. todo_id t \<noteq> X) (this_list st))
        + length (filter (\<lambda>t. todo_id t = X) (this_list st)) = length (this_list st)"
    using sum_length_filter_compl [of "\<lambda>t. todo_id t = X" "this_list st"] by simp
  then show ?thesis
    by (simp add: this_list_handleDeleteTodo this_list_handleCheckedTodo)
qed

theorem every_match_deleted_and_toggled_witness:
  "length (filter (\<lambda>t. todo_id t = ''2'') (this_list (example_state example_items []))) = 2
   \<and> this_list (handleDeleteTodo ''2'' (example_state example_items []))
       = [example_items ! 0, example_items ! 2]
   \<and> (1::nat) < length (this_list (example_state example_items []))
   \<and> todo_id (this_list (example_state example_items []) ! 1) = ''2''
   \<and> completed (this_list (handleCheckedTodo ''2'' (example_state example_items [])) ! 1)
   \<and> (3::nat) < length (this_list (example_state example_items []))
   \<and> todo_id (this_list (example_state example_items []) ! 3) = ''2''
   \<and> completed (this_list (handleCheckedTodo ''2'' (example_state example_items [])) ! 3)"
  using every_match_deleted_and_toggled [of "''2''" "example_state example_items []"]
  by (simp add: example_state_def example_items_def handleDeleteTodo_def)

end
